theory Spec2Isabelle
  imports Main
begin

section \<open>Data model (types.ts, services/supabaseClient.ts)\<close>

text \<open>
  The interfaces of the source become records. Record fields are global names in
  Isabelle, so every field carries a short prefix for its interface
  (\<open>c_\<close> CategoryDef, \<open>p_\<close> ProductItem, \<open>db_\<close> DbItem, \<open>t_\<close> a set's item tuple,
  \<open>s_\<close> ShoppingSet, \<open>li_\<close> a log's item tuple, \<open>l_\<close> PurchaseLog); the handlers'
  parameters and locals keep the source's names. A JavaScript string is a
  \<open>string\<close>: the handlers compare strings, test them for emptiness, join them and
  split off the first unit (\<open>charAt(0)\<close>, \<open>slice(1)\<close>), so a \<open>char\<close> stands for one
  unit of the string. A JavaScript number that holds a counter or an epoch-millisecond
  timestamp is an \<open>int\<close>; an optional field (\<open>completedAt?\<close>, \<open>usageCount?\<close>) is
  an \<open>option\<close>, \<open>None\<close> being \<open>undefined\<close>. A \<open>category\<close> or \<open>purchase_count\<close>
  that the database delivers as \<open>null\<close> is read by the callbacks' \<open>||\<close> like the empty
  string and like 0, and is modelled as such.
\<close>

record CategoryDef =
  c_id :: string
  c_name :: string
  c_emoji :: string

record ProductItem =
  p_id :: string
  p_name :: string
  p_categoryId :: string
  p_completed :: bool
  p_onList :: bool
  p_purchaseCount :: int
  p_completedAt :: "int option"

record DbItem =
  db_id :: string
  db_text :: string
  db_is_bought :: bool
  db_category :: string
  db_family_id :: int
  db_purchase_count :: int

text \<open>The sentinel category id, the literal \<open>'dept_none'\<close> of the source.\<close>

abbreviation dept_none :: string where
  "dept_none \<equiv> ''dept_none''"

text \<open>
  JavaScript's \<open>a || b\<close> on a string (the empty string is falsy) and on a number
  (zero is falsy).
\<close>

definition strOr :: "string \<Rightarrow> string \<Rightarrow> string" where
  "strOr a b = (if a = [] then b else a)"

definition numOr :: "int \<Rightarrow> int \<Rightarrow> int" where
  "numOr a b = (if a = 0 then b else a)"

text \<open>
  The counters are JavaScript numbers, binary64 values; an \<open>int\<close> stands for an
  integer-valued one. The source's \<open>n + 1\<close> and \<open>n - 1\<close> are the binary64 nearest to
  the exact result, ties going to the even significand: \<open>jsNumber x\<close> is that value
  for the exact result \<open>x\<close>. Up to 9007199254740992 (2 to the power 53) in magnitude
  every integer is a binary64 and the result is exact; above, the 53 leading bits are
  kept and the rest is rounded. (Magnitudes from 2 to the power 1024 on, where the
  source has \<open>Infinity\<close>, are outside the model.)
\<close>

fun bitLength :: "nat \<Rightarrow> nat" where
  "bitLength n = (if n = 0 then 0 else Suc (bitLength (n div 2)))"

declare bitLength.simps [simp del]

definition jsNumber :: "int \<Rightarrow> int" where
  "jsNumber x =
     (if \<bar>x\<bar> \<le> 9007199254740992 then x
      else
        let m = nat \<bar>x\<bar>;
            e = bitLength m - 53;
            q = m div 2 ^ e;
            r = m mod 2 ^ e;
            half = 2 ^ (e - 1);
            q' = (if half < r \<or> (r = half \<and> odd q) then q + 1 else q)
        in sgn x * int (q' * 2 ^ e))"

section \<open>Remote merge (the callbacks handed to subscribeToItems)\<close>

text \<open>
  Each callback is the updater it passes to \<open>setItems\<close>: a function from the store
  \<open>prev\<close> to the new store. \<open>prev.find(...)\<close> yields an object or \<open>undefined\<close>, and
  an object is truthy, so \<open>if (exists)\<close> is the test for \<open>Some\<close>.
\<close>

definition onInsert :: "DbItem \<Rightarrow> ProductItem list \<Rightarrow> ProductItem list" where
  "onInsert newItem prev =
     (case find (\<lambda>i. p_id i = db_id newItem) prev of
        Some exists \<Rightarrow> prev
      | None \<Rightarrow> prev @ [\<lparr> p_id = db_id newItem,
                          p_name = db_text newItem,
                          p_categoryId = strOr (db_category newItem) dept_none,
                          p_completed = db_is_bought newItem,
                          p_onList = True,
                          p_purchaseCount = numOr (db_purchase_count newItem) 0,
                          p_completedAt = None \<rparr>])"

definition onUpdate :: "DbItem \<Rightarrow> ProductItem list \<Rightarrow> ProductItem list" where
  "onUpdate updatedItem prev =
     map (\<lambda>i. if p_id i = db_id updatedItem
              then i\<lparr> p_name := db_text updatedItem,
                      p_categoryId := strOr (db_category updatedItem) dept_none,
                      p_completed := db_is_bought updatedItem,
                      p_purchaseCount := numOr (db_purchase_count updatedItem) 0 \<rparr>
              else i) prev"

definition onDelete :: "string \<Rightarrow> ProductItem list \<Rightarrow> ProductItem list" where
  "onDelete deletedId prev = filter (\<lambda>i. p_id i \<noteq> deletedId) prev"

text \<open>The same insert event delivered \<open>n\<close> times in a row.\<close>

fun deliverInsert :: "nat \<Rightarrow> DbItem \<Rightarrow> ProductItem list \<Rightarrow> ProductItem list" where
  "deliverInsert 0 newItem prev = prev"
| "deliverInsert (Suc n) newItem prev = deliverInsert n newItem (onInsert newItem prev)"

text \<open>The buy list of the source, before the category filter of the view: \<open>items.filter(i => i.onList)\<close>.\<close>

definition buyList :: "ProductItem list \<Rightarrow> ProductItem list" where
  "buyList items = filter p_onList items"

section \<open>The JavaScript built-ins the handlers call\<close>

text \<open>
  \<open>String.prototype.toLowerCase\<close>, \<open>toUpperCase\<close> and \<open>trim\<close>, and the local
  midnight \<open>new Date(t).setHours(0, 0, 0, 0)\<close> of an instant \<open>t\<close>, belong to the
  JavaScript runtime (Unicode case mapping, the device's time zone), not to the
  repository. The handlers take them as a parameter \<open>js\<close>, so every theorem holds for
  whatever these functions compute; \<open>asciiJs\<close> below is one instance, used to run the
  handlers on concrete inputs.
\<close>

record Builtins =
  toLowerCase :: "string \<Rightarrow> string"
  toUpperCase :: "string \<Rightarrow> string"
  trim :: "string \<Rightarrow> string"
  startOfDay :: "int \<Rightarrow> int"

section \<open>Item Store: finalizeAddItem\<close>

text \<open>\<open>name.trim().charAt(0).toUpperCase() + name.trim().slice(1)\<close>\<close>

definition capName :: "Builtins \<Rightarrow> string \<Rightarrow> string" where
  "capName js name = toUpperCase js (take 1 (trim js name)) @ drop 1 (trim js name)"

text \<open>
  \<open>finalizeAddItem\<close> reads \<open>items\<close>, the store as the handler's closure sees it, and
  hands \<open>setItems\<close> an updater that runs on \<open>prev\<close>, the store at the time the update
  is applied; a handler that calls it once on a fresh render has \<open>prev = items\<close>, a
  \<open>forEach\<close> over several names keeps \<open>items\<close> and chains the updaters. \<open>newId\<close> is
  the id the call draws from \<open>Date.now()\<close> and \<open>Math.random()\<close>. The call to
  \<open>upsertItem\<close> (the remote push) does not touch the local store and is left out.
\<close>

definition finalizeAddItem ::
  "Builtins \<Rightarrow> string \<Rightarrow> ProductItem list \<Rightarrow> string \<Rightarrow> string \<Rightarrow> bool
     \<Rightarrow> ProductItem list \<Rightarrow> ProductItem list" where
  "finalizeAddItem js newId items name categoryId onList prev =
     (case find (\<lambda>i. toLowerCase js (p_name i) = toLowerCase js (capName js name)) items of
        Some existing \<Rightarrow>
          map (\<lambda>i. if p_id i = p_id existing
                   then i\<lparr> p_onList := onList \<or> p_onList existing,
                           p_completed := (if onList then False else p_completed i),
                           p_completedAt := (if onList then None else p_completedAt i),
                           p_categoryId := (if categoryId \<noteq> dept_none then categoryId
                                            else p_categoryId i) \<rparr>
                   else i) prev
      | None \<Rightarrow>
          \<lparr> p_id = newId,
            p_name = capName js name,
            p_categoryId = strOr categoryId dept_none,
            p_completed = False,
            p_onList = onList,
            p_purchaseCount = 0,
            p_completedAt = None \<rparr> # prev)"

section \<open>Purchase Log and the application state\<close>

record LogItem =
  li_name :: string
  li_categoryId :: string

record PurchaseLog =
  l_id :: string
  l_date :: int
  l_items :: "LogItem list"

record SetItem =
  t_name :: string
  t_categoryName :: string
  t_emoji :: string

record ShoppingSet =
  s_id :: string
  s_name :: string
  s_emoji :: string
  s_items :: "SetItem list"
  s_usageCount :: "int option"

text \<open>
  The \<open>useState\<close> cells of \<open>App\<close> that the handlers below read or write, as one
  record. A handler is a function from the state to the state.
\<close>

record AppState =
  st_categories :: "CategoryDef list"
  st_items :: "ProductItem list"
  st_sets :: "ShoppingSet list"
  st_logs :: "PurchaseLog list"
  st_lastDeletedItem :: "ProductItem option"
  st_lastCompletedItem :: "string option"
  st_showUndoToast :: bool
  st_showCompletedUndoToast :: bool

text \<open>
  \<open>Array.prototype.lastIndexOf\<close> (strict equality, \<open>-1\<close> as \<open>None\<close>) and
  \<open>splice(i, 1)\<close> on a copy.
\<close>

fun lastIndexOf :: "'a \<Rightarrow> 'a list \<Rightarrow> nat option" where
  "lastIndexOf x [] = None"
| "lastIndexOf x (y # ys) =
     (case lastIndexOf x ys of
        Some k \<Rightarrow> Some (Suc k)
      | None \<Rightarrow> if y = x then Some 0 else None)"

definition splice1 :: "nat \<Rightarrow> 'a list \<Rightarrow> 'a list" where
  "splice1 i xs = take i xs @ drop (Suc i) xs"

text \<open>\<open>currentLogs.find(l => new Date(l.date).setHours(0, 0, 0, 0) === today)\<close>\<close>

definition findLogEntry :: "Builtins \<Rightarrow> int \<Rightarrow> PurchaseLog list \<Rightarrow> PurchaseLog option" where
  "findLogEntry js today currentLogs = find (\<lambda>l. startOfDay js (l_date l) = today) currentLogs"

section \<open>toggleComplete and undoCompletion\<close>

text \<open>
  The removal of a logged purchase, written out twice in the source: in the un-toggle
  branch of the updater \<open>toggleComplete\<close> passes to \<open>setLogs\<close>, and in the updater
  of \<open>undoCompletion\<close>. \<open>name\<close> is the name of the row.
\<close>

definition removeLastLogged :: "Builtins \<Rightarrow> int \<Rightarrow> string \<Rightarrow> PurchaseLog list \<Rightarrow> PurchaseLog list" where
  "removeLastLogged js today name currentLogs =
     (case findLogEntry js today currentLogs of
        Some logEntry \<Rightarrow>
          (case lastIndexOf name (map li_name (l_items logEntry)) of
             Some lastIndex \<Rightarrow>
               map (\<lambda>l. if l_id l = l_id logEntry
                        then l\<lparr> l_items := splice1 lastIndex (l_items logEntry) \<rparr>
                        else l) currentLogs
           | None \<Rightarrow> currentLogs)
      | None \<Rightarrow> currentLogs)"

text \<open>
  The updater \<open>toggleComplete\<close> passes to \<open>setLogs\<close> for one toggled row \<open>item\<close>
  (\<open>newCompleted\<close> is \<open>!item.completed\<close>). \<open>now\<close> is \<open>Date.now()\<close>, \<open>today\<close> is
  \<open>new Date().setHours(0, 0, 0, 0)\<close> and \<open>logId\<close> is the \<open>Date.now().toString()\<close>
  of a new log entry.
\<close>

definition toggleLogs ::
  "Builtins \<Rightarrow> int \<Rightarrow> int \<Rightarrow> string \<Rightarrow> ProductItem \<Rightarrow> PurchaseLog list \<Rightarrow> PurchaseLog list" where
  "toggleLogs js now today logId item currentLogs =
     (if \<not> p_completed item then
        (let itemForLog = \<lparr> li_name = p_name item, li_categoryId = p_categoryId item \<rparr> in
         case findLogEntry js today currentLogs of
           Some logEntry \<Rightarrow>
             map (\<lambda>l. if l_id l = l_id logEntry
                      then l\<lparr> l_items := l_items l @ [itemForLog] \<rparr>
                      else l) currentLogs
         | None \<Rightarrow> \<lparr> l_id = logId, l_date = now, l_items = [itemForLog] \<rparr> # currentLogs)
      else removeLastLogged js today (p_name item) currentLogs)"

text \<open>The value the \<open>map\<close> callback of \<open>toggleComplete\<close> returns for a row.\<close>

definition toggleItem :: "int \<Rightarrow> string \<Rightarrow> ProductItem \<Rightarrow> ProductItem" where
  "toggleItem now id' item =
     (if p_id item = id' then
        (if \<not> p_completed item
         then item\<lparr> p_completed := True,
                    p_purchaseCount := jsNumber (p_purchaseCount item + 1),
                    p_completedAt := Some now \<rparr>
         else item\<lparr> p_completed := False, p_completedAt := None \<rparr>)
      else item)"

text \<open>
  \<open>toggleComplete\<close>: every row with the id is toggled; for each of them, in store
  order, the log updater is queued; a row that becomes completed arms the undo toast
  and records the id (the parameter \<open>id\<close> of the source is \<open>id'\<close> here). The
  clock reads of one call are one instant.
\<close>

definition toggleComplete ::
  "Builtins \<Rightarrow> int \<Rightarrow> string \<Rightarrow> string \<Rightarrow> AppState \<Rightarrow> AppState" where
  "toggleComplete js now logId id' st =
     (let hit = filter (\<lambda>item. p_id item = id') (st_items st);
          armed = (\<exists>item \<in> set hit. \<not> p_completed item)
      in st\<lparr> st_items := map (toggleItem now id') (st_items st),
              st_logs := fold (toggleLogs js now (startOfDay js now) logId) hit (st_logs st),
              st_lastCompletedItem := (if armed then Some id' else st_lastCompletedItem st),
              st_showCompletedUndoToast := (armed \<or> st_showCompletedUndoToast st) \<rparr>)"

text \<open>
  \<open>undoCompletion\<close>. \<open>if (lastCompletedItem)\<close> is falsy for \<open>null\<close> and for the empty
  string.
\<close>

definition undoCompletion :: "Builtins \<Rightarrow> int \<Rightarrow> AppState \<Rightarrow> AppState" where
  "undoCompletion js now st =
     (case st_lastCompletedItem st of
        None \<Rightarrow> st
      | Some lastCompletedItem \<Rightarrow>
          if lastCompletedItem = [] then st
          else st\<lparr> st_logs :=
                      (case find (\<lambda>i. p_id i = lastCompletedItem) (st_items st) of
                         Some itemToUndo \<Rightarrow>
                           removeLastLogged js (startOfDay js now) (p_name itemToUndo) (st_logs st)
                       | None \<Rightarrow> st_logs st),
                    st_items :=
                      map (\<lambda>it. if p_id it = lastCompletedItem
                                then it\<lparr> p_completed := False,
                                         p_completedAt := None,
                                         p_purchaseCount :=
                                           max 0 (jsNumber (p_purchaseCount it - 1)) \<rparr>
                                else it) (st_items st),
                    st_lastCompletedItem := None,
                    st_showCompletedUndoToast := False \<rparr>)"

section \<open>Daily rollover\<close>

text \<open>
  The updater of the rollover effect; \<open>todayStr\<close> is \<open>new Date().setHours(0, 0, 0, 0)\<close>.
  \<open>item.completedAt && ...\<close> is falsy when completedAt is \<open>undefined\<close> and when it is
  the number 0.
\<close>

definition rollover :: "Builtins \<Rightarrow> int \<Rightarrow> ProductItem list \<Rightarrow> ProductItem list" where
  "rollover js todayStr prev =
     map (\<lambda>item.
            case p_completedAt item of
              Some t \<Rightarrow>
                if p_completed item \<and> t \<noteq> 0 \<and> startOfDay js t < todayStr
                then item\<lparr> p_completed := False, p_onList := False, p_completedAt := None \<rparr>
                else item
            | None \<Rightarrow> item) prev"

section \<open>Category Registry\<close>

text \<open>
  The three non-ASCII literals of the handlers, as their UTF-8 bytes: the name and the
  emoji of the fallback sentinel category, and the default emoji of a new category.
\<close>

definition noneName :: string where
  "noneName = [CHR 0xD0, CHR 0x91, CHR 0xD0, CHR 0xB5, CHR 0xD0, CHR 0xB7, CHR 0x20,
               CHR 0xD0, CHR 0xBA, CHR 0xD0, CHR 0xB0, CHR 0xD1, CHR 0x82, CHR 0xD0, CHR 0xB5,
               CHR 0xD0, CHR 0xB3, CHR 0xD0, CHR 0xBE, CHR 0xD1, CHR 0x80, CHR 0xD0, CHR 0xB8,
               CHR 0xD0, CHR 0xB8]"

definition noneEmoji :: string where
  "noneEmoji = [CHR 0xE2, CHR 0x9A, CHR 0xAA]"

definition boxEmoji :: string where
  "boxEmoji = [CHR 0xF0, CHR 0x9F, CHR 0x93, CHR 0xA6]"

text \<open>The object literal the handlers fall back to when the listing has no sentinel.\<close>

definition fallbackNone :: CategoryDef where
  "fallbackNone = \<lparr> c_id = dept_none, c_name = noneName, c_emoji = noneEmoji \<rparr>"

text \<open>
  The decimal string JavaScript's \<open>+\<close> and \<open>toString\<close> give an integer such as
  \<open>Date.now()\<close>.
\<close>

definition digitChar :: "nat \<Rightarrow> char" where
  "digitChar d = ''0123456789'' ! d"

fun showNat :: "nat \<Rightarrow> string" where
  "showNat n = (if n < 10 then [digitChar n] else showNat (n div 10) @ [digitChar (n mod 10)])"

declare showNat.simps [simp del]

definition showInt :: "int \<Rightarrow> string" where
  "showInt i = (if i < 0 then CHR ''-'' # showNat (nat (- i)) else showNat (nat i))"

text \<open>\<open>cats.find(c => c.id === 'dept_none') || { id: 'dept_none', ... }\<close>\<close>

definition systemNone :: "CategoryDef list \<Rightarrow> CategoryDef" where
  "systemNone cats =
     (case find (\<lambda>c. c_id c = dept_none) cats of Some none \<Rightarrow> none | None \<Rightarrow> fallbackNone)"

text \<open>
  The updater \<open>saveCategory\<close> passes to \<open>setCategories\<close>. \<open>editingCategory\<close> is
  \<open>None\<close> on create and the category under edit otherwise.
\<close>

definition saveCategoryUpdater ::
  "CategoryDef option \<Rightarrow> string \<Rightarrow> string \<Rightarrow> string \<Rightarrow> CategoryDef list \<Rightarrow> CategoryDef list" where
  "saveCategoryUpdater editingCategory newCatId catName catEmoji prev =
     (let others = filter (\<lambda>c. c_id c \<noteq> dept_none \<and>
                               (case editingCategory of
                                  Some ed \<Rightarrow> c_id c \<noteq> c_id ed | None \<Rightarrow> True)) prev;
          newCat = \<lparr> c_id = (case editingCategory of Some ed \<Rightarrow> c_id ed | None \<Rightarrow> newCatId),
                     c_name = catName,
                     c_emoji = catEmoji \<rparr>
      in others @ [newCat, systemNone prev])"

text \<open>
  \<open>itemToUpdateAfterCategory\<close>: \<open>{ id?: string, name: string, onList: boolean }\<close>.
\<close>

record PendingItem =
  u_id :: "string option"
  u_name :: string
  u_onList :: bool

text \<open>
  \<open>saveCategory\<close>. \<open>!catName.trim()\<close> holds for the empty string;
  \<open>if (itemToUpdateAfterCategory.id)\<close> is falsy for an absent and for an empty id.
  \<open>newId\<close> is the item id \<open>finalizeAddItem\<close> would draw.
\<close>

definition saveCategory ::
  "Builtins \<Rightarrow> int \<Rightarrow> string \<Rightarrow> CategoryDef option \<Rightarrow> string \<Rightarrow> string
     \<Rightarrow> PendingItem option \<Rightarrow> AppState \<Rightarrow> AppState" where
  "saveCategory js now newId editingCategory catName catEmoji itemToUpdateAfterCategory st =
     (if trim js catName = [] then st
      else
        let newCatId = ''dept_'' @ showInt now in
        st\<lparr> st_categories :=
              saveCategoryUpdater editingCategory newCatId catName catEmoji (st_categories st),
            st_items :=
              (case editingCategory of
                 Some ed \<Rightarrow> st_items st
               | None \<Rightarrow>
                   (case itemToUpdateAfterCategory of
                      None \<Rightarrow> st_items st
                    | Some u \<Rightarrow>
                        if u_id u \<noteq> None \<and> u_id u \<noteq> Some []
                        then map (\<lambda>i. if Some (p_id i) = u_id u
                                       then i\<lparr> p_name := u_name u, p_categoryId := newCatId \<rparr>
                                       else i) (st_items st)
                        else finalizeAddItem js newId (st_items st) (u_name u) newCatId
                               (u_onList u) (st_items st))) \<rparr>)"

text \<open>
  \<open>openCategoryModal(cat)\<close> returns at once for the sentinel, so \<open>editingCategory\<close>
  is never the sentinel; \<open>deleteCategory(id)\<close> returns at once for the sentinel id,
  and only it (directly, or through the confirmation dialog it opens) calls
  \<open>performDeleteCategory\<close>.
\<close>

definition openCategoryModal :: "CategoryDef option \<Rightarrow> CategoryDef option option" where
  "openCategoryModal cat =
     (case cat of
        Some c \<Rightarrow> if c_id c = dept_none then None else Some (Some c)
      | None \<Rightarrow> Some None)"

definition performDeleteCategory :: "string \<Rightarrow> AppState \<Rightarrow> AppState" where
  "performDeleteCategory id' st =
     st\<lparr> st_items := map (\<lambda>item. if p_categoryId item = id'
                                  then item\<lparr> p_categoryId := dept_none \<rparr> else item) (st_items st),
         st_categories := filter (\<lambda>c. c_id c \<noteq> id') (st_categories st) \<rparr>"

definition deleteCategory :: "string \<Rightarrow> AppState \<Rightarrow> AppState" where
  "deleteCategory id' st = (if id' = dept_none then st else performDeleteCategory id' st)"

text \<open>The ids of the categories other than the sentinel, in listing order.\<close>

definition nonSentinelIds :: "CategoryDef list \<Rightarrow> string list" where
  "nonSentinelIds cats = map c_id (filter (\<lambda>c. c_id c \<noteq> dept_none) cats)"

text \<open>The sentinel is the last element of a listing.\<close>

definition sentinelLast :: "CategoryDef list \<Rightarrow> bool" where
  "sentinelLast cats \<longleftrightarrow> cats \<noteq> [] \<and> c_id (last cats) = dept_none"

section \<open>Set expansion, voice-parse acceptance, AI categorization\<close>

text \<open>\<open>reorderCats\<close>, the local helper of both expansion loops.\<close>

definition reorderCats :: "CategoryDef list \<Rightarrow> CategoryDef list" where
  "reorderCats cats = filter (\<lambda>c. c_id c \<noteq> dept_none) cats @ [systemNone cats]"

text \<open>
  What one round of the \<open>forEach\<close> draws from the runtime: \<open>Date.now()\<close> and the
  printed \<open>Math.random()\<close> for the id of a new category
  (\<open>'dept_' + Date.now() + Math.random()\<close>), and the id \<open>finalizeAddItem\<close> gives a
  new row.
\<close>

record Draw =
  d_now :: int
  d_random :: string
  d_itemId :: string

text \<open>
  One round of the loop on \<open>setItem\<close>. \<open>items\<close> is the store of the closure (the
  same for every round), \<open>updatedCats\<close> the local listing the rounds extend, \<open>prev\<close>
  the store the queued \<open>setItems\<close> updaters have produced so far.
\<close>

definition addSetItem ::
  "Builtins \<Rightarrow> Draw \<Rightarrow> ProductItem list \<Rightarrow> SetItem
     \<Rightarrow> CategoryDef list \<times> ProductItem list \<Rightarrow> CategoryDef list \<times> ProductItem list" where
  "addSetItem js d items setItem acc =
     (let updatedCats = fst acc; prev = snd acc in
      case find (\<lambda>i. toLowerCase js (p_name i) = toLowerCase js (t_name setItem)) items of
        Some historyItem \<Rightarrow>
          (updatedCats,
           finalizeAddItem js (d_itemId d) items (t_name setItem) (p_categoryId historyItem) True prev)
      | None \<Rightarrow>
          (case find (\<lambda>c. toLowerCase js (c_name c) = toLowerCase js (t_categoryName setItem))
                  updatedCats of
             Some cat \<Rightarrow>
               (updatedCats,
                finalizeAddItem js (d_itemId d) items (t_name setItem) (c_id cat) True prev)
           | None \<Rightarrow>
               (let cat = \<lparr> c_id = ''dept_'' @ showInt (d_now d) @ d_random d,
                            c_name = t_categoryName setItem,
                            c_emoji = strOr (t_emoji setItem) boxEmoji \<rparr>
                in (updatedCats @ [cat],
                    finalizeAddItem js (d_itemId d) items (t_name setItem) (c_id cat) True prev))))"

text \<open>The \<open>forEach\<close>; round \<open>k\<close> uses the draw \<open>draw k\<close>.\<close>

fun addSetItems ::
  "Builtins \<Rightarrow> (nat \<Rightarrow> Draw) \<Rightarrow> ProductItem list \<Rightarrow> nat \<Rightarrow> SetItem list
     \<Rightarrow> CategoryDef list \<times> ProductItem list \<Rightarrow> CategoryDef list \<times> ProductItem list" where
  "addSetItems js draw items k [] acc = acc"
| "addSetItems js draw items k (setItem # rest) acc =
     addSetItems js draw items (Suc k) rest (addSetItem js (draw k) items setItem acc)"

text \<open>\<open>(s.usageCount || 0)\<close> on the optional counter.\<close>

definition optNumOr :: "int option \<Rightarrow> int \<Rightarrow> int" where
  "optNumOr a b = (case a of None \<Rightarrow> b | Some n \<Rightarrow> numOr n b)"

text \<open>
  \<open>addSpecificItemsFromSet\<close> (the parameter \<open>set\<close> of the source is \<open>set'\<close> here).
  The list of recently added set ids, the toast and the timer only drive the display and
  are left out.
\<close>

definition addSpecificItemsFromSet ::
  "Builtins \<Rightarrow> (nat \<Rightarrow> Draw) \<Rightarrow> ShoppingSet \<Rightarrow> SetItem list \<Rightarrow> AppState \<Rightarrow> AppState" where
  "addSpecificItemsFromSet js draw set' itemsToAdd st =
     (let acc = addSetItems js draw (st_items st) 0 itemsToAdd (st_categories st, st_items st)
      in st\<lparr> st_categories := reorderCats (fst acc),
              st_items := snd acc,
              st_sets := map (\<lambda>s. if s_id s = s_id set'
                                   then s\<lparr> s_usageCount :=
                                            Some (jsNumber (optNumOr (s_usageCount s) 0 + 1)) \<rparr>
                                   else s) (st_sets st) \<rparr>)"

definition addSetToBuyListDirect ::
  "Builtins \<Rightarrow> (nat \<Rightarrow> Draw) \<Rightarrow> ShoppingSet \<Rightarrow> AppState \<Rightarrow> AppState" where
  "addSetToBuyListDirect js draw set' st = addSpecificItemsFromSet js draw set' (s_items set') st"

text \<open>
  The confirm button of the partial-set dialog:
  \<open>set.items.filter((_, i) => selectedIndices.includes(i))\<close>, expanded when not empty.
\<close>

definition addSelectedFromSet ::
  "Builtins \<Rightarrow> (nat \<Rightarrow> Draw) \<Rightarrow> ShoppingSet \<Rightarrow> nat list \<Rightarrow> AppState \<Rightarrow> AppState" where
  "addSelectedFromSet js draw set' selectedIndices st =
     (let itemsToAdd = map (\<lambda>i. s_items set' ! i)
                           (filter (\<lambda>i. i \<in> set selectedIndices) [0 ..< length (s_items set')])
      in if length itemsToAdd > 0 then addSpecificItemsFromSet js draw set' itemsToAdd st else st)"

text \<open>
  The accept button of the voice-parse dialog runs the same loop on the selected parsed
  items, with \<open>suggestedEmoji\<close> in the place of \<open>emoji\<close>, and then \<open>reorderCats\<close>.
\<close>

record ParsedItem =
  pi_name :: string
  pi_categoryName :: string
  pi_suggestedEmoji :: string
  pi_selected :: bool

definition acceptParsedItems ::
  "Builtins \<Rightarrow> (nat \<Rightarrow> Draw) \<Rightarrow> ParsedItem list \<Rightarrow> AppState \<Rightarrow> AppState" where
  "acceptParsedItems js draw parsedItems st =
     (let toAdd = map (\<lambda>pItem. \<lparr> t_name = pi_name pItem,
                                  t_categoryName = pi_categoryName pItem,
                                  t_emoji = pi_suggestedEmoji pItem \<rparr>)
                      (filter pi_selected parsedItems);
          acc = addSetItems js draw (st_items st) 0 toAdd (st_categories st, st_items st)
      in st\<lparr> st_categories := reorderCats (fst acc), st_items := snd acc \<rparr>)"

text \<open>
  \<open>handleAddItemFromModal\<close>. The answer of the categorization service is a parameter:
  the call is not made, it throws, it returns \<open>null\<close>, or it returns a response. The
  handler is taken as one step, its \<open>await\<close> included.
\<close>

record SmartCategoryResponse =
  r_categoryName :: string
  r_suggestedEmoji :: string
  r_isNew :: bool

datatype AiAnswer = AiThrows | AiNull | AiSmart SmartCategoryResponse

definition handleAddItemFromModal ::
  "Builtins \<Rightarrow> int \<Rightarrow> string \<Rightarrow> bool \<Rightarrow> bool \<Rightarrow> string \<Rightarrow> string \<Rightarrow> string option \<Rightarrow> bool
     \<Rightarrow> AiAnswer \<Rightarrow> AppState \<Rightarrow> AppState" where
  "handleAddItemFromModal js now newId isAiEnabled isAiLoading addItemText addItemCategory
       forcedCategoryId onList answer st =
     (if trim js addItemText = [] \<or> isAiLoading then st
      else
        let name = trim js addItemText;
            targetId = (case forcedCategoryId of
                          Some f \<Rightarrow> strOr f addItemCategory | None \<Rightarrow> addItemCategory);
            items = st_items st;
            add = (\<lambda>categoryId. finalizeAddItem js newId items name categoryId onList items)
        in case find (\<lambda>i. toLowerCase js (p_name i) = toLowerCase js name) items of
             Some existingItem \<Rightarrow>
               st\<lparr> st_items := add (if targetId \<noteq> dept_none then targetId
                                      else p_categoryId existingItem) \<rparr>
           | None \<Rightarrow>
               if \<not> isAiEnabled \<or> (targetId \<noteq> dept_none \<and> targetId \<noteq> ''other'')
               then st\<lparr> st_items := add targetId \<rparr>
               else
                 (case answer of
                    AiThrows \<Rightarrow> st\<lparr> st_items := add dept_none \<rparr>
                  | AiNull \<Rightarrow> st\<lparr> st_items := add targetId \<rparr>
                  | AiSmart smart \<Rightarrow>
                      (case find (\<lambda>c. toLowerCase js (c_name c)
                                         = toLowerCase js (r_categoryName smart))
                              (st_categories st) of
                         Some existingCat \<Rightarrow> st\<lparr> st_items := add (c_id existingCat) \<rparr>
                       | None \<Rightarrow>
                           (let newCat = \<lparr> c_id = ''dept_'' @ showInt now,
                                           c_name = r_categoryName smart,
                                           c_emoji = strOr (r_suggestedEmoji smart) boxEmoji \<rparr>
                            in st\<lparr> st_categories :=
                                      filter (\<lambda>c. c_id c \<noteq> dept_none) (st_categories st) @
                                      [newCat, systemNone (st_categories st)],
                                    st_items := add (c_id newCat) \<rparr>))))"

section \<open>The remaining handlers of the Item Store\<close>

text \<open>
  \<open>handleBulkAdd\<close>: the lines of the text, trimmed, the empty ones dropped, each
  handed to \<open>finalizeAddItem\<close> with the same stale \<open>items\<close>; round \<open>k\<close> draws the id
  \<open>ids k\<close>. \<open>bulkAddCategory\<close> is \<open>string | null\<close>; \<open>!bulkAddCategory\<close> holds for
  \<open>null\<close> and for the empty string.
\<close>

fun splitLines :: "string \<Rightarrow> string list" where
  "splitLines [] = [[]]"
| "splitLines (c # cs) =
     (if c = CHR 0x0A then [] # splitLines cs
      else (case splitLines cs of l # ls \<Rightarrow> (c # l) # ls | [] \<Rightarrow> [[c]]))"

fun finalizeAddItems ::
  "Builtins \<Rightarrow> (nat \<Rightarrow> string) \<Rightarrow> ProductItem list \<Rightarrow> nat \<Rightarrow> string list \<Rightarrow> string \<Rightarrow> bool
     \<Rightarrow> ProductItem list \<Rightarrow> ProductItem list" where
  "finalizeAddItems js ids items k [] categoryId onList prev = prev"
| "finalizeAddItems js ids items k (name # rest) categoryId onList prev =
     finalizeAddItems js ids items (Suc k) rest categoryId onList
       (finalizeAddItem js (ids k) items name categoryId onList prev)"

definition handleBulkAdd ::
  "Builtins \<Rightarrow> (nat \<Rightarrow> string) \<Rightarrow> string \<Rightarrow> string option \<Rightarrow> bool \<Rightarrow> AppState \<Rightarrow> AppState" where
  "handleBulkAdd js ids bulkAddText bulkAddCategory viewIsBuy st =
     (case bulkAddCategory of
        None \<Rightarrow> st
      | Some category \<Rightarrow>
          if trim js bulkAddText = [] \<or> category = [] then st
          else
            let lines = filter (\<lambda>l. l \<noteq> []) (map (trim js) (splitLines bulkAddText))
            in st\<lparr> st_items :=
                      finalizeAddItems js ids (st_items st) 0 lines category viewIsBuy
                        (st_items st) \<rparr>)"

definition toggleHistoryItem :: "Builtins \<Rightarrow> string \<Rightarrow> ProductItem \<Rightarrow> AppState \<Rightarrow> AppState" where
  "toggleHistoryItem js newId item st =
     (if p_onList item \<and> \<not> p_completed item
      then st\<lparr> st_items := map (\<lambda>i. if p_id i = p_id item
                                      then i\<lparr> p_onList := False, p_completed := False \<rparr>
                                      else i) (st_items st) \<rparr>
      else st\<lparr> st_items := finalizeAddItem js newId (st_items st) (p_name item)
                                (p_categoryId item) True (st_items st) \<rparr>)"

definition performItemDelete :: "ProductItem \<Rightarrow> AppState \<Rightarrow> AppState" where
  "performItemDelete item st =
     st\<lparr> st_lastDeletedItem := Some item,
         st_items := filter (\<lambda>i. p_id i \<noteq> p_id item) (st_items st),
         st_showUndoToast := True \<rparr>"

text \<open>
  The button of the undo toast. The toast is rendered while one of the two flags is set;
  its button restores the deleted row when \<open>showUndoToast\<close> is set and calls
  \<open>undoCompletion\<close> otherwise.
\<close>

definition undoButton :: "Builtins \<Rightarrow> int \<Rightarrow> AppState \<Rightarrow> AppState" where
  "undoButton js now st =
     (if \<not> (st_showUndoToast st \<or> st_showCompletedUndoToast st) then st
      else if st_showUndoToast st
      then st\<lparr> st_items := (case st_lastDeletedItem st of
                               Some lastDeletedItem \<Rightarrow> lastDeletedItem # st_items st
                             | None \<Rightarrow> st_items st),
               st_showUndoToast := False \<rparr>
      else undoCompletion js now st)"

text \<open>The save button of the item editor.\<close>

definition saveItemEdit :: "ProductItem \<Rightarrow> string \<Rightarrow> string \<Rightarrow> AppState \<Rightarrow> AppState" where
  "saveItemEdit editingItem editItemName editItemCategoryId st =
     st\<lparr> st_items :=
           map (\<lambda>i. if p_id i = p_id editingItem
                    then editingItem\<lparr> p_name := editItemName, p_categoryId := editItemCategoryId \<rparr>
                    else i) (st_items st) \<rparr>"

text \<open>The item mapping of \<open>authAndSync\<close> (the same literal as in the insert callback).\<close>

definition mappedItems :: "DbItem list \<Rightarrow> ProductItem list" where
  "mappedItems remoteItems =
     map (\<lambda>ri. \<lparr> p_id = db_id ri,
                 p_name = db_text ri,
                 p_categoryId = strOr (db_category ri) dept_none,
                 p_completed = db_is_bought ri,
                 p_onList = True,
                 p_purchaseCount = numOr (db_purchase_count ri) 0,
                 p_completedAt = None \<rparr>) remoteItems"

section \<open>Events and runs\<close>

text \<open>
  One constructor per handler, carrying what the handler takes from the user, the
  dialogs' state and the runtime. \<open>perform\<close> applies the handler; \<open>run\<close> applies a
  sequence of events in order.
\<close>

datatype Event =
    AddItemFromModal int string bool bool string string "string option" bool AiAnswer
  | BulkAdd "nat \<Rightarrow> string" string "string option" bool
  | ExpandSet "nat \<Rightarrow> Draw" ShoppingSet "SetItem list"
  | ExpandSelected "nat \<Rightarrow> Draw" ShoppingSet "nat list"
  | AcceptParsed "nat \<Rightarrow> Draw" "ParsedItem list"
  | ToggleComplete int string string
  | UndoButton int
  | ToggleHistoryItem string ProductItem
  | DeleteItem ProductItem
  | SaveItemEdit ProductItem string string
  | SaveCategory int string "CategoryDef option" string string "PendingItem option"
  | DeleteCategory string
  | Rollover int
  | UndoToastTimeout
  | CompletedUndoToastTimeout
  | RemoteLoad "DbItem list"
  | RemoteInsert DbItem
  | RemoteUpdate DbItem
  | RemoteDelete string

fun perform :: "Builtins \<Rightarrow> Event \<Rightarrow> AppState \<Rightarrow> AppState" where
  "perform js (AddItemFromModal now newId isAiEnabled isAiLoading addItemText addItemCategory
                 forcedCategoryId onList answer) st =
     handleAddItemFromModal js now newId isAiEnabled isAiLoading addItemText addItemCategory
       forcedCategoryId onList answer st"
| "perform js (BulkAdd ids bulkAddText bulkAddCategory viewIsBuy) st =
     handleBulkAdd js ids bulkAddText bulkAddCategory viewIsBuy st"
| "perform js (ExpandSet draw set' itemsToAdd) st = addSpecificItemsFromSet js draw set' itemsToAdd st"
| "perform js (ExpandSelected draw set' selectedIndices) st =
     addSelectedFromSet js draw set' selectedIndices st"
| "perform js (AcceptParsed draw parsedItems) st = acceptParsedItems js draw parsedItems st"
| "perform js (ToggleComplete now logId id') st = toggleComplete js now logId id' st"
| "perform js (UndoButton now) st = undoButton js now st"
| "perform js (ToggleHistoryItem newId item) st = toggleHistoryItem js newId item st"
| "perform js (DeleteItem item) st = performItemDelete item st"
| "perform js (SaveItemEdit editingItem editItemName editItemCategoryId) st =
     saveItemEdit editingItem editItemName editItemCategoryId st"
| "perform js (SaveCategory now newId cat catName catEmoji itemToUpdateAfterCategory) st =
     (case openCategoryModal cat of
        None \<Rightarrow> st
      | Some editingCategory \<Rightarrow>
          saveCategory js now newId editingCategory catName catEmoji itemToUpdateAfterCategory st)"
| "perform js (DeleteCategory id') st = deleteCategory id' st"
| "perform js (Rollover now) st = st\<lparr> st_items := rollover js (startOfDay js now) (st_items st) \<rparr>"
| "perform js UndoToastTimeout st = st\<lparr> st_showUndoToast := False \<rparr>"
| "perform js CompletedUndoToastTimeout st = st\<lparr> st_showCompletedUndoToast := False \<rparr>"
| "perform js (RemoteLoad remoteItems) st = st\<lparr> st_items := mappedItems remoteItems \<rparr>"
| "perform js (RemoteInsert newItem) st = st\<lparr> st_items := onInsert newItem (st_items st) \<rparr>"
| "perform js (RemoteUpdate updatedItem) st = st\<lparr> st_items := onUpdate updatedItem (st_items st) \<rparr>"
| "perform js (RemoteDelete deletedId) st = st\<lparr> st_items := onDelete deletedId (st_items st) \<rparr>"

fun run :: "Builtins \<Rightarrow> Event list \<Rightarrow> AppState \<Rightarrow> AppState" where
  "run js [] st = st"
| "run js (e # es) st = run js es (perform js e st)"

section \<open>The completion stamp of a row, and the runs of local events\<close>

text \<open>\<open>completed = true\<close> exactly when \<open>completedAt\<close> is set.\<close>

definition completionStamped :: "ProductItem \<Rightarrow> bool" where
  "completionStamped i \<longleftrightarrow> (p_completed i \<longleftrightarrow> p_completedAt i \<noteq> None)"

text \<open>
  The state of the store the local handlers maintain: every row is stamped, the ids
  of the rows are distinct, and the row kept for the delete-undo toast is stamped and,
  while the toast is shown, its id is not in the store.
\<close>

definition storeInv :: "AppState \<Rightarrow> bool" where
  "storeInv st \<longleftrightarrow>
     list_all completionStamped (st_items st) \<and>
     distinct (map p_id (st_items st)) \<and>
     (case st_lastDeletedItem st of
        None \<Rightarrow> True
      | Some d \<Rightarrow> completionStamped d \<and>
                  (st_showUndoToast st \<longrightarrow> p_id d \<notin> set (map p_id (st_items st))))"

text \<open>
  An id drawn for a new row is fresh: it is not the id of a row of the store nor of the
  row kept for the delete-undo toast. \<open>freshIds\<close> says so for the first \<open>n\<close> draws of a
  loop, which are also distinct from one another.
\<close>

definition freshId :: "string \<Rightarrow> AppState \<Rightarrow> bool" where
  "freshId newId st \<longleftrightarrow>
     newId \<notin> set (map p_id (st_items st)) \<and>
     (case st_lastDeletedItem st of None \<Rightarrow> True | Some d \<Rightarrow> p_id d \<noteq> newId)"

definition freshIds :: "(nat \<Rightarrow> string) \<Rightarrow> nat \<Rightarrow> AppState \<Rightarrow> bool" where
  "freshIds ids n st \<longleftrightarrow>
     list_all (\<lambda>k. freshId (ids k) st) [0 ..< n] \<and> distinct (map ids [0 ..< n])"

text \<open>
  The local events: all but the remote load and the three remote callbacks.
\<close>

fun isLocal :: "Event \<Rightarrow> bool" where
  "isLocal (RemoteLoad remoteItems) = False"
| "isLocal (RemoteInsert newItem) = False"
| "isLocal (RemoteUpdate updatedItem) = False"
| "isLocal (RemoteDelete deletedId) = False"
| "isLocal e = True"

text \<open>
  What the interface and the runtime guarantee for an event in a state: the row a
  button of the list hands to its handler is a row of the store, and the ids drawn
  for new rows are fresh.
\<close>

fun wellFormed :: "Builtins \<Rightarrow> Event \<Rightarrow> AppState \<Rightarrow> bool" where
  "wellFormed js (AddItemFromModal now newId isAiEnabled isAiLoading addItemText addItemCategory
                    forcedCategoryId onList answer) st = freshId newId st"
| "wellFormed js (BulkAdd ids bulkAddText bulkAddCategory viewIsBuy) st =
     freshIds ids (length (splitLines bulkAddText)) st"
| "wellFormed js (ExpandSet draw set' itemsToAdd) st =
     freshIds (\<lambda>k. d_itemId (draw k)) (length itemsToAdd) st"
| "wellFormed js (ExpandSelected draw set' selectedIndices) st =
     freshIds (\<lambda>k. d_itemId (draw k)) (length (s_items set')) st"
| "wellFormed js (AcceptParsed draw parsedItems) st =
     freshIds (\<lambda>k. d_itemId (draw k)) (length parsedItems) st"
| "wellFormed js (ToggleHistoryItem newId item) st =
     (item \<in> set (st_items st) \<and> freshId newId st)"
| "wellFormed js (DeleteItem item) st = (item \<in> set (st_items st))"
| "wellFormed js (SaveItemEdit editingItem editItemName editItemCategoryId) st =
     (editingItem \<in> set (st_items st))"
| "wellFormed js (SaveCategory now newId cat catName catEmoji itemToUpdateAfterCategory) st =
     freshId newId st"
| "wellFormed js e st = True"

fun admissible :: "Builtins \<Rightarrow> Event list \<Rightarrow> AppState \<Rightarrow> bool" where
  "admissible js [] st = True"
| "admissible js (e # es) st =
     (isLocal e \<and> wellFormed js e st \<and> admissible js es (perform js e st))"

section \<open>Example data\<close>

text \<open>
  Concrete stores, logs, listings, sets and event sequences on which the theorems below
  are instantiated.
\<close>

definition store0 :: "ProductItem list" where
  "store0 = [\<lparr> p_id = ''a1'', p_name = ''Milk'', p_categoryId = ''dept_dairy'',
               p_completed = False, p_onList = False, p_purchaseCount = 2,
               p_completedAt = None \<rparr>]"

definition ev0 :: DbItem where
  "ev0 = \<lparr> db_id = ''a1'', db_text = ''Kefir'', db_is_bought = True, db_category = [],
           db_family_id = 7, db_purchase_count = 5 \<rparr>"

text \<open>
  An instance of the built-ins for ASCII text and UTC days (86400000 ms each).
\<close>

definition asciiLower :: "char \<Rightarrow> char" where
  "asciiLower c =
     (case map_of (zip ''ABCDEFGHIJKLMNOPQRSTUVWXYZ'' ''abcdefghijklmnopqrstuvwxyz'') c of
        Some d \<Rightarrow> d | None \<Rightarrow> c)"

definition asciiUpper :: "char \<Rightarrow> char" where
  "asciiUpper c =
     (case map_of (zip ''abcdefghijklmnopqrstuvwxyz'' ''ABCDEFGHIJKLMNOPQRSTUVWXYZ'') c of
        Some d \<Rightarrow> d | None \<Rightarrow> c)"

definition asciiTrim :: "string \<Rightarrow> string" where
  "asciiTrim s =
     rev (dropWhile (\<lambda>c. c = CHR '' '') (rev (dropWhile (\<lambda>c. c = CHR '' '') s)))"

definition asciiJs :: Builtins where
  "asciiJs = \<lparr> toLowerCase = map asciiLower, toUpperCase = map asciiUpper,
               trim = asciiTrim, startOfDay = (\<lambda>t. t - t mod 86400000) \<rparr>"

definition store1 :: "ProductItem list" where
  "store1 = [\<lparr> p_id = ''b7'', p_name = ''Bread'', p_categoryId = ''dept_bakery'',
               p_completed = False, p_onList = True, p_purchaseCount = 0,
               p_completedAt = None \<rparr>,
             \<lparr> p_id = ''a1'', p_name = ''Milk'', p_categoryId = ''dept_dairy'',
               p_completed = True, p_onList = True, p_purchaseCount = 3,
               p_completedAt = Some 1700000000000 \<rparr>]"

definition state1 :: AppState where
  "state1 = \<lparr> st_categories = [], st_items = store1, st_sets = [], st_logs = [],
              st_lastDeletedItem = None, st_lastCompletedItem = Some ''b7'',
              st_showUndoToast = False, st_showCompletedUndoToast = True \<rparr>"

definition logs1 :: "PurchaseLog list" where
  "logs1 = [\<lparr> l_id = ''1699950000000'', l_date = 1699950000000,
              l_items = [\<lparr> li_name = ''Milk'', li_categoryId = ''dept_dairy'' \<rparr>,
                         \<lparr> li_name = ''Bread'', li_categoryId = ''dept_bakery'' \<rparr>,
                         \<lparr> li_name = ''Milk'', li_categoryId = ''dept_dairy'' \<rparr>] \<rparr>]"

definition state2 :: AppState where
  "state2 = \<lparr> st_categories = [], st_items = store1, st_sets = [], st_logs = logs1,
              st_lastDeletedItem = None, st_lastCompletedItem = Some ''a1'',
              st_showUndoToast = False, st_showCompletedUndoToast = True \<rparr>"

definition epochItem :: ProductItem where
  "epochItem = \<lparr> p_id = ''e0'', p_name = ''Salt'', p_categoryId = dept_none,
                 p_completed = True, p_onList = True, p_purchaseCount = 1,
                 p_completedAt = Some 0 \<rparr>"


definition cats1 :: "CategoryDef list" where
  "cats1 = [\<lparr> c_id = ''dept_a'', c_name = ''Dairy'', c_emoji = ''d'' \<rparr>,
            \<lparr> c_id = ''dept_b'', c_name = ''Bakery'', c_emoji = ''b'' \<rparr>,
            \<lparr> c_id = dept_none, c_name = noneName, c_emoji = noneEmoji \<rparr>]"

definition set1 :: ShoppingSet where
  "set1 = \<lparr> s_id = ''s1'', s_name = ''Cake'', s_emoji = ''c'',
             s_items = [\<lparr> t_name = ''Flour'', t_categoryName = ''Baking'', t_emoji = ''w'' \<rparr>,
                        \<lparr> t_name = ''Sugar'', t_categoryName = ''baking'', t_emoji = [] \<rparr>],
             s_usageCount = None \<rparr>"

definition draw1 :: "nat \<Rightarrow> Draw" where
  "draw1 k = \<lparr> d_now = 1705 + int k, d_random = ''0.5'', d_itemId = ''new'' @ showNat k \<rparr>"

definition state3 :: AppState where
  "state3 = \<lparr> st_categories = cats1, st_items = store1, st_sets = [set1], st_logs = [],
              st_lastDeletedItem = None, st_lastCompletedItem = None,
              st_showUndoToast = False, st_showCompletedUndoToast = False \<rparr>"

definition cats2 :: "CategoryDef list" where
  "cats2 = [\<lparr> c_id = dept_none, c_name = noneName, c_emoji = noneEmoji \<rparr>,
            \<lparr> c_id = ''dept_a'', c_name = ''Dairy'', c_emoji = ''d'' \<rparr>,
            \<lparr> c_id = ''dept_b'', c_name = ''Bakery'', c_emoji = ''b'' \<rparr>]"

definition state4 :: AppState where
  "state4 = \<lparr> st_categories = cats2, st_items = [], st_sets = [], st_logs = [],
              st_lastDeletedItem = None, st_lastCompletedItem = None,
              st_showUndoToast = False, st_showCompletedUndoToast = False \<rparr>"

definition events1 :: "Event list" where
  "events1 = [SaveCategory 1706 ''n1'' None ''Fish'' ''f'' None,
              SaveCategory 1707 ''n2'' (Some (cats1 ! 0)) ''Milk products'' ''d'' None,
              DeleteCategory ''dept_b'',
              ExpandSet draw1 set1 (s_items set1)]"

definition evUnbought :: DbItem where
  "evUnbought = \<lparr> db_id = ''a1'', db_text = ''Milk'', db_is_bought = False,
                  db_category = ''dept_dairy'', db_family_id = 7, db_purchase_count = 3 \<rparr>"

definition events2 :: "Event list" where
  "events2 = [ToggleComplete 1700000500000 ''L1'' ''b7'',
              AddItemFromModal 1700000500000 ''n9'' False False ''tea'' dept_none None True AiNull,
              DeleteItem (store1 ! 1),
              UndoButton 1700000600000,
              Rollover 1700090000000]"

definition bulkText :: string where
  "bulkText = ''eggs'' @ [CHR 0x0A] @ ''Eggs''"

definition bulkIds :: "nat \<Rightarrow> string" where
  "bulkIds k = ''x'' @ showNat k"

definition evBig :: DbItem where
  "evBig = \<lparr> db_id = ''a1'', db_text = ''Milk'', db_is_bought = True,
             db_category = ''dept_dairy'', db_family_id = 7,
             db_purchase_count = 9007199254740992 \<rparr>"

definition stateBig :: AppState where
  "stateBig = \<lparr> st_categories = cats1, st_items = mappedItems [evBig], st_sets = [],
                st_logs = [], st_lastDeletedItem = None, st_lastCompletedItem = None,
                st_showUndoToast = False, st_showCompletedUndoToast = False \<rparr>"



section \<open>Remote merge: properties\<close>

lemma find_by_id_present:
  "x \<in> p_id ` set prev \<Longrightarrow> \<exists>e. find (\<lambda>i. p_id i = x) prev = Some e"
  by (cases "find (\<lambda>i. p_id i = x) prev") (auto simp: find_None_iff)

lemma onInsert_present: "db_id ev \<in> p_id ` set prev \<Longrightarrow> onInsert ev prev = prev"
  using find_by_id_present [of "db_id ev" prev] by (auto simp: onInsert_def)

lemma onInsert_makes_present: "db_id ev \<in> p_id ` set (onInsert ev prev)"
proof (cases "find (\<lambda>i. p_id i = db_id ev) prev")
  case None
  then show ?thesis by (simp add: onInsert_def)
next
  case (Some e)
  then have "e \<in> set prev" and "p_id e = db_id ev"
    by (auto simp: find_Some_iff)
  then have "db_id ev \<in> p_id ` set prev" by force
  with Some show ?thesis by (simp add: onInsert_def)
qed

lemma deliverInsert_present:
  "db_id ev \<in> p_id ` set prev \<Longrightarrow> deliverInsert n ev prev = prev"
  by (induction n) (simp_all add: onInsert_present)

text \<open>
  C4. A remote insert whose id is already in the Item Store leaves the store exactly as
  it was (no row added, no field changed), however often it is delivered; and for any
  store, delivering the same insert once more after the first delivery changes nothing.
\<close>

theorem remote_insert_present_id_noop:
  "(db_id newItem \<in> p_id ` set prev \<longrightarrow>
      onInsert newItem prev = prev \<and> (\<forall>n. deliverInsert n newItem prev = prev))
   \<and> deliverInsert (Suc n) newItem prev = onInsert newItem prev"
proof -
  have "deliverInsert n newItem (onInsert newItem prev) = onInsert newItem prev"
    by (rule deliverInsert_present) (rule onInsert_makes_present)
  then show ?thesis
    by (simp add: onInsert_present deliverInsert_present)
qed

theorem remote_insert_present_id_noop_witness:
  "db_id ev0 \<in> p_id ` set store0 \<and> onInsert ev0 store0 = store0
   \<and> deliverInsert 3 ev0 store0 = store0 \<and> length (onInsert ev0 store0) = 1"
proof -
  have h: "db_id ev0 \<in> p_id ` set store0" by (simp add: ev0_def store0_def)
  from remote_insert_present_id_noop [of ev0 store0 0] h
  have "onInsert ev0 store0 = store0" and "\<forall>n. deliverInsert n ev0 store0 = store0" by simp_all
  with h show ?thesis by (simp add: store0_def)
qed

lemma onUpdate_nth:
  "k < length prev \<Longrightarrow> onUpdate u prev ! k =
     (if p_id (prev ! k) = db_id u
      then (prev ! k)\<lparr> p_name := db_text u,
                      p_categoryId := strOr (db_category u) dept_none,
                      p_completed := db_is_bought u,
                      p_purchaseCount := numOr (db_purchase_count u) 0 \<rparr>
      else prev ! k)"
  by (simp add: onUpdate_def)

lemma buyList_onUpdate: "map p_id (buyList (onUpdate u prev)) = map p_id (buyList prev)"
  by (induction prev) (simp_all add: buyList_def onUpdate_def)

text \<open>
  C10. A remote update keeps the length of the store and, row by row, the id, the
  onList flag and completedAt; on a row with the notification's id it writes the
  notification's text, category (the sentinel when the category is empty), is_bought
  and purchase_count; every other row is untouched. Hence the ids on the buy list
  (the rows with onList) are the same before and after.
\<close>

theorem remote_update_frame:
  "length (onUpdate updatedItem prev) = length prev \<and>
   (\<forall>k < length prev.
      p_id (onUpdate updatedItem prev ! k) = p_id (prev ! k) \<and>
      p_onList (onUpdate updatedItem prev ! k) = p_onList (prev ! k) \<and>
      p_completedAt (onUpdate updatedItem prev ! k) = p_completedAt (prev ! k) \<and>
      (p_id (prev ! k) = db_id updatedItem \<longrightarrow>
         p_name (onUpdate updatedItem prev ! k) = db_text updatedItem \<and>
         p_categoryId (onUpdate updatedItem prev ! k) = strOr (db_category updatedItem) dept_none \<and>
         p_completed (onUpdate updatedItem prev ! k) = db_is_bought updatedItem \<and>
         p_purchaseCount (onUpdate updatedItem prev ! k) = db_purchase_count updatedItem) \<and>
      (p_id (prev ! k) \<noteq> db_id updatedItem \<longrightarrow> onUpdate updatedItem prev ! k = prev ! k)) \<and>
   map p_id (buyList (onUpdate updatedItem prev)) = map p_id (buyList prev)"
proof -
  have "length (onUpdate updatedItem prev) = length prev" by (simp add: onUpdate_def)
  moreover have "numOr (db_purchase_count updatedItem) 0 = db_purchase_count updatedItem"
    by (simp add: numOr_def)
  ultimately show ?thesis
    by (simp add: onUpdate_nth buyList_onUpdate)
qed

theorem remote_update_frame_witness:
  "0 < length store0 \<and> p_id (store0 ! 0) = db_id ev0 \<and>
   onUpdate ev0 store0 = [\<lparr> p_id = ''a1'', p_name = ''Kefir'', p_categoryId = dept_none,
      p_completed = True, p_onList = False, p_purchaseCount = 5, p_completedAt = None \<rparr>] \<and>
   buyList (onUpdate ev0 store0) = []"
  using remote_update_frame [of ev0 store0]
  by (simp add: store0_def ev0_def onUpdate_def strOr_def numOr_def buyList_def)

section \<open>finalizeAddItem: properties\<close>

lemma finalizeAddItem_found:
  "find (\<lambda>i. toLowerCase js (p_name i) = toLowerCase js (capName js name)) items = Some existing \<Longrightarrow>
   finalizeAddItem js newId items name categoryId onList prev =
     map (\<lambda>i. if p_id i = p_id existing
              then i\<lparr> p_onList := onList \<or> p_onList existing,
                      p_completed := (if onList then False else p_completed i),
                      p_completedAt := (if onList then None else p_completedAt i),
                      p_categoryId := (if categoryId \<noteq> dept_none then categoryId
                                       else p_categoryId i) \<rparr>
              else i) prev"
  by (simp add: finalizeAddItem_def)

lemma find_Some_index:
  "find P xs = Some x \<Longrightarrow> \<exists>k < length xs. xs ! k = x"
  by (auto simp: find_Some_iff)

text \<open>
  The found branch. When the trimmed, capitalised name matches a row of \<open>items\<close>, the
  store of the closure, case-insensitively (\<open>find\<close> returns \<open>existing\<close>), the call
  adds no row: the store keeps its length, whatever store the update is applied to.
  Applied to the store it read, the matched row keeps every field but four: onList
  becomes (requested onList or its old onList); completed and completedAt are cleared
  when onList is requested and kept otherwise; the category becomes the supplied one
  when that is not the sentinel and is kept otherwise. Rows with another id are
  untouched.
\<close>

theorem finalizeAddItem_merges_existing:
  assumes "find (\<lambda>i. toLowerCase js (p_name i) = toLowerCase js (capName js name)) items
             = Some existing"
  shows "length (finalizeAddItem js newId items name categoryId onList prev) = length prev \<and>
         (\<exists>k < length items. items ! k = existing) \<and>
         (\<forall>k < length items. items ! k = existing \<longrightarrow>
            finalizeAddItem js newId items name categoryId onList items ! k =
              existing\<lparr> p_onList := onList \<or> p_onList existing,
                        p_completed := (if onList then False else p_completed existing),
                        p_completedAt := (if onList then None else p_completedAt existing),
                        p_categoryId := (if categoryId \<noteq> dept_none then categoryId
                                         else p_categoryId existing) \<rparr> \<and>
            (p_onList existing \<longrightarrow>
               p_onList (finalizeAddItem js newId items name categoryId onList items ! k))) \<and>
         (\<forall>k < length items. p_id (items ! k) \<noteq> p_id existing \<longrightarrow>
            finalizeAddItem js newId items name categoryId onList items ! k = items ! k)"
proof -
  note found = finalizeAddItem_found [OF assms]
  have "length (finalizeAddItem js newId items name categoryId onList prev) = length prev"
    by (simp add: found)
  moreover have "\<exists>k < length items. items ! k = existing"
    using assms by (rule find_Some_index)
  ultimately show ?thesis
    by (simp add: found)
qed

lemma find_milk_store1:
  "find (\<lambda>i. toLowerCase asciiJs (p_name i) = toLowerCase asciiJs (capName asciiJs '' milk'')) store1
     = Some (store1 ! 1)"
  by (simp add: store1_def capName_def asciiJs_def asciiTrim_def asciiUpper_def asciiLower_def)

theorem finalizeAddItem_merges_existing_witness:
  "find (\<lambda>i. toLowerCase asciiJs (p_name i) = toLowerCase asciiJs (capName asciiJs '' milk'')) store1
     = Some (store1 ! 1) \<and>
   length (finalizeAddItem asciiJs ''n1'' store1 '' milk'' dept_none True store1) = 2 \<and>
   finalizeAddItem asciiJs ''n1'' store1 '' milk'' dept_none True store1 ! 1 =
     \<lparr> p_id = ''a1'', p_name = ''Milk'', p_categoryId = ''dept_dairy'',
       p_completed = False, p_onList = True, p_purchaseCount = 3, p_completedAt = None \<rparr> \<and>
   finalizeAddItem asciiJs ''n1'' store1 '' milk'' ''dept_x'' False store1 ! 1 =
     \<lparr> p_id = ''a1'', p_name = ''Milk'', p_categoryId = ''dept_x'',
       p_completed = True, p_onList = True, p_purchaseCount = 3,
       p_completedAt = Some 1700000000000 \<rparr>"
proof -
  note h = find_milk_store1
  have a: "length (finalizeAddItem asciiJs ''n1'' store1 '' milk'' dept_none True store1) = 2"
    using finalizeAddItem_merges_existing [OF h, of "''n1''" dept_none True store1]
    by (simp add: store1_def)
  have b: "finalizeAddItem asciiJs ''n1'' store1 '' milk'' dept_none True store1 ! 1 =
     \<lparr> p_id = ''a1'', p_name = ''Milk'', p_categoryId = ''dept_dairy'',
       p_completed = False, p_onList = True, p_purchaseCount = 3, p_completedAt = None \<rparr>"
    using finalizeAddItem_merges_existing [OF h, of "''n1''" dept_none True store1]
    by (simp add: store1_def)
  have c: "finalizeAddItem asciiJs ''n1'' store1 '' milk'' ''dept_x'' False store1 ! 1 =
     \<lparr> p_id = ''a1'', p_name = ''Milk'', p_categoryId = ''dept_x'',
       p_completed = True, p_onList = True, p_purchaseCount = 3,
       p_completedAt = Some 1700000000000 \<rparr>"
    using finalizeAddItem_merges_existing [OF h, of "''n1''" "''dept_x''" False store1]
    by (simp add: store1_def)
  from h a b c show ?thesis by simp
qed

text \<open>
  C1. The claim: a call of the finalize-add operation whose name, trimmed and
  capitalised, matches a row of the Item Store case-insensitively creates no new row.
  The call looks the name up in \<open>items\<close>, the store of the handler's closure, not in
  the store its update is applied to. In a bulk add of the two lines \<open>eggs\<close> and
  \<open>Eggs\<close> to a store without eggs, the first call adds the row Eggs; the name of the
  second call matches that row of the store being updated, and the second call adds
  another row Eggs all the same: the store ends with two rows named Eggs.
\<close>

theorem bulk_add_same_name_adds_second_row:
  "find (\<lambda>i. toLowerCase asciiJs (p_name i) = toLowerCase asciiJs (capName asciiJs ''Eggs''))
        (finalizeAddItem asciiJs (bulkIds 0) store1 ''eggs'' ''dept_a'' True store1)
     = Some \<lparr> p_id = ''x0'', p_name = ''Eggs'', p_categoryId = ''dept_a'',
              p_completed = False, p_onList = True, p_purchaseCount = 0,
              p_completedAt = None \<rparr> \<and>
   length (finalizeAddItem asciiJs (bulkIds 1) store1 ''Eggs'' ''dept_a'' True
             (finalizeAddItem asciiJs (bulkIds 0) store1 ''eggs'' ''dept_a'' True store1))
     = Suc (length (finalizeAddItem asciiJs (bulkIds 0) store1 ''eggs'' ''dept_a'' True store1)) \<and>
   st_items state3 = store1 \<and>
   map (\<lambda>i. (p_id i, p_name i))
       (st_items (handleBulkAdd asciiJs bulkIds bulkText (Some ''dept_a'') True state3))
     = [(''x1'', ''Eggs''), (''x0'', ''Eggs''), (''b7'', ''Bread''), (''a1'', ''Milk'')]"
  by (simp add: handleBulkAdd_def finalizeAddItem_def capName_def strOr_def Let_def
        bulkText_def bulkIds_def state3_def store1_def
        asciiJs_def asciiTrim_def asciiUpper_def asciiLower_def
        showNat.simps digitChar_def)

section \<open>Numbers: properties\<close>

lemma jsNumber_exact: "\<bar>x\<bar> \<le> 9007199254740992 \<Longrightarrow> jsNumber x = x"
  by (simp add: jsNumber_def)

lemma jsNumber_succ: "\<bar>n\<bar> < 9007199254740992 \<Longrightarrow> jsNumber (n + 1) = n + 1"
  by (rule jsNumber_exact) simp

lemma jsNumber_pred: "\<bar>n\<bar> < 9007199254740992 \<Longrightarrow> jsNumber (n - 1) = n - 1"
  by (rule jsNumber_exact) simp

lemma bitLength_2_53_1: "bitLength 9007199254740993 = 54"
  by (simp add: bitLength.simps)

lemma jsNumber_2_53_1: "jsNumber 9007199254740993 = 9007199254740992"
  by (simp add: jsNumber_def bitLength_2_53_1 Let_def)

section \<open>Completion toggling: properties\<close>

lemma items_toggleComplete:
  "st_items (toggleComplete js now logId id' st) = map (toggleItem now id') (st_items st)"
  by (simp add: toggleComplete_def Let_def)

lemma items_undoCompletion:
  "st_items (undoCompletion js now st) =
     (case st_lastCompletedItem st of
        None \<Rightarrow> st_items st
      | Some lastCompletedItem \<Rightarrow>
          if lastCompletedItem = [] then st_items st
          else map (\<lambda>it. if p_id it = lastCompletedItem
                          then it\<lparr> p_completed := False, p_completedAt := None,
                                   p_purchaseCount := max 0 (jsNumber (p_purchaseCount it - 1)) \<rparr>
                          else it) (st_items st))"
  by (simp add: undoCompletion_def split: option.splits)

text \<open>
  At 9007199254740992 (2 to the power 53) the binary64 sum \<open>n + 1\<close> is \<open>n\<close> again. The
  initial load takes \<open>purchase_count\<close> from the remote table as it is; a bought row
  loaded with that count, toggled to false and back to true, has the same count as
  before.
\<close>

theorem toggle_at_2_53_counterexample:
  "p_completed (st_items stateBig ! 0) \<and>
   p_purchaseCount (st_items stateBig ! 0) = 9007199254740992 \<and>
   p_completed (st_items (toggleComplete asciiJs 1700000600000 ''L2'' ''a1''
                  (toggleComplete asciiJs 1700000500000 ''L1'' ''a1'' stateBig)) ! 0) \<and>
   p_purchaseCount (st_items (toggleComplete asciiJs 1700000600000 ''L2'' ''a1''
                      (toggleComplete asciiJs 1700000500000 ''L1'' ''a1'' stateBig)) ! 0)
     = 9007199254740992"
  by (simp add: items_toggleComplete toggleItem_def stateBig_def evBig_def mappedItems_def
        numOr_def strOr_def jsNumber_2_53_1)

text \<open>
  C3 (amended). For a completed row with the toggled id, one toggle leaves it
  uncompleted with the same purchaseCount, and a second toggle leaves it completed with
  the binary64 sum of that count and 1, which is the count plus 1 for every count of
  magnitude below 9007199254740992. A toggle changes the purchaseCount of no completed
  row and lowers that of no row with a count of that magnitude. The undo operation
  writes the maximum of 0 and the binary64 difference of the count and 1, for counts of
  that magnitude the count lowered by one and floored at 0, on the rows whose id is the
  (non-empty) recorded last completed id, and leaves the count of every other row.
\<close>

theorem toggle_twice_counts_once:
  "(\<forall>k < length (st_items st).
      p_id (st_items st ! k) = id' \<and> p_completed (st_items st ! k) \<longrightarrow>
        \<not> p_completed (st_items (toggleComplete js now logId id' st) ! k) \<and>
        p_purchaseCount (st_items (toggleComplete js now logId id' st) ! k)
          = p_purchaseCount (st_items st ! k) \<and>
        p_completed (st_items (toggleComplete js now2 logId2 id'
                                 (toggleComplete js now logId id' st)) ! k) \<and>
        p_purchaseCount (st_items (toggleComplete js now2 logId2 id'
                                     (toggleComplete js now logId id' st)) ! k)
          = jsNumber (p_purchaseCount (st_items st ! k) + 1) \<and>
        (\<bar>p_purchaseCount (st_items st ! k)\<bar> < 9007199254740992 \<longrightarrow>
           p_purchaseCount (st_items (toggleComplete js now2 logId2 id'
                                        (toggleComplete js now logId id' st)) ! k)
             = p_purchaseCount (st_items st ! k) + 1)) \<and>
   (\<forall>k < length (st_items st).
      (p_completed (st_items st ! k) \<longrightarrow>
         p_purchaseCount (st_items (toggleComplete js now logId id' st) ! k)
           = p_purchaseCount (st_items st ! k)) \<and>
      (\<bar>p_purchaseCount (st_items st ! k)\<bar> < 9007199254740992 \<longrightarrow>
         p_purchaseCount (st_items st ! k)
           \<le> p_purchaseCount (st_items (toggleComplete js now logId id' st) ! k))) \<and>
   (\<forall>k < length (st_items st).
      p_purchaseCount (st_items (undoCompletion js now st) ! k) =
        (if st_lastCompletedItem st = Some (p_id (st_items st ! k)) \<and> p_id (st_items st ! k) \<noteq> []
         then max 0 (jsNumber (p_purchaseCount (st_items st ! k) - 1))
         else p_purchaseCount (st_items st ! k)) \<and>
      (\<bar>p_purchaseCount (st_items st ! k)\<bar> < 9007199254740992 \<longrightarrow>
         p_purchaseCount (st_items (undoCompletion js now st) ! k) =
           (if st_lastCompletedItem st = Some (p_id (st_items st ! k))
               \<and> p_id (st_items st ! k) \<noteq> []
            then max 0 (p_purchaseCount (st_items st ! k) - 1)
            else p_purchaseCount (st_items st ! k))))"
proof -
  have a: "\<forall>k < length (st_items st).
      p_id (st_items st ! k) = id' \<and> p_completed (st_items st ! k) \<longrightarrow>
        \<not> p_completed (st_items (toggleComplete js now logId id' st) ! k) \<and>
        p_purchaseCount (st_items (toggleComplete js now logId id' st) ! k)
          = p_purchaseCount (st_items st ! k) \<and>
        p_completed (st_items (toggleComplete js now2 logId2 id'
                                 (toggleComplete js now logId id' st)) ! k) \<and>
        p_purchaseCount (st_items (toggleComplete js now2 logId2 id'
                                     (toggleComplete js now logId id' st)) ! k)
          = jsNumber (p_purchaseCount (st_items st ! k) + 1) \<and>
        (\<bar>p_purchaseCount (st_items st ! k)\<bar> < 9007199254740992 \<longrightarrow>
           p_purchaseCount (st_items (toggleComplete js now2 logId2 id'
                                        (toggleComplete js now logId id' st)) ! k)
             = p_purchaseCount (st_items st ! k) + 1)"
    by (simp add: items_toggleComplete toggleItem_def jsNumber_succ)
  have b: "\<forall>k < length (st_items st).
      (p_completed (st_items st ! k) \<longrightarrow>
         p_purchaseCount (st_items (toggleComplete js now logId id' st) ! k)
           = p_purchaseCount (st_items st ! k)) \<and>
      (\<bar>p_purchaseCount (st_items st ! k)\<bar> < 9007199254740992 \<longrightarrow>
         p_purchaseCount (st_items st ! k)
           \<le> p_purchaseCount (st_items (toggleComplete js now logId id' st) ! k))"
    by (simp add: items_toggleComplete toggleItem_def jsNumber_succ)
  have c: "\<forall>k < length (st_items st).
      p_purchaseCount (st_items (undoCompletion js now st) ! k) =
        (if st_lastCompletedItem st = Some (p_id (st_items st ! k)) \<and> p_id (st_items st ! k) \<noteq> []
         then max 0 (jsNumber (p_purchaseCount (st_items st ! k) - 1))
         else p_purchaseCount (st_items st ! k))"
    by (auto simp: items_undoCompletion split: option.splits)
  have d: "\<forall>k < length (st_items st).
      \<bar>p_purchaseCount (st_items st ! k)\<bar> < 9007199254740992 \<longrightarrow>
         p_purchaseCount (st_items (undoCompletion js now st) ! k) =
           (if st_lastCompletedItem st = Some (p_id (st_items st ! k))
               \<and> p_id (st_items st ! k) \<noteq> []
            then max 0 (p_purchaseCount (st_items st ! k) - 1)
            else p_purchaseCount (st_items st ! k))"
    using c by (simp add: jsNumber_pred)
  from a b c d show ?thesis by blast
qed

theorem toggle_twice_counts_once_witness:
  "1 < length (st_items state1) \<and> p_id (st_items state1 ! 1) = ''a1'' \<and>
   p_completed (st_items state1 ! 1) \<and> p_purchaseCount (st_items state1 ! 1) = 3 \<and>
   p_purchaseCount (st_items (toggleComplete asciiJs 1700000500000 ''L1'' ''a1'' state1) ! 1) = 3 \<and>
   p_purchaseCount (st_items (toggleComplete asciiJs 1700000600000 ''L2'' ''a1''
                      (toggleComplete asciiJs 1700000500000 ''L1'' ''a1'' state1)) ! 1) = 4 \<and>
   st_lastCompletedItem state1 = Some (p_id (st_items state1 ! 0)) \<and>
   p_purchaseCount (st_items state1 ! 0) = 0 \<and>
   p_purchaseCount (st_items (undoCompletion asciiJs 1700000500000 state1) ! 0) = 0"
  using toggle_twice_counts_once [of state1 "''a1''" asciiJs 1700000500000 "''L1''" 1700000600000 "''L2''"]
  by (simp add: state1_def store1_def jsNumber_def)

section \<open>Purchase Log: properties\<close>

lemma lastIndexOf_None: "lastIndexOf x xs = None \<longleftrightarrow> x \<notin> set xs"
  by (induction xs) (auto split: option.splits)









lemma removeLastLogged_no_match:
  assumes "\<And>e. findLogEntry js today logs = Some e \<Longrightarrow> \<forall>b \<in> set (l_items e). li_name b \<noteq> name"
  shows "removeLastLogged js today name logs = logs"
proof (cases "findLogEntry js today logs")
  case None
  then show ?thesis by (simp add: removeLastLogged_def)
next
  case (Some e)
  then have "\<forall>b \<in> set (l_items e). li_name b \<noteq> name" by (rule assms)
  then have "name \<notin> set (map li_name (l_items e))" by auto
  then have "lastIndexOf name (map li_name (l_items e)) = None"
    by (simp add: lastIndexOf_None)
  with Some show ?thesis by (simp add: removeLastLogged_def)
qed







section \<open>Daily rollover: properties\<close>


text \<open>
  The guard \<open>item.completed && item.completedAt && ...\<close> reads the number 0 as an
  absent completedAt, so a row stamped with the instant 0 is left as it is. No handler
  writes that stamp: the only write of a completedAt is the toggle's, with the value of
  \<open>Date.now()\<close>, and the rows of the remote table carry no completedAt.
\<close>

lemma rollover_reads_zero_as_absent:
  "p_completed epochItem \<and> p_completedAt epochItem = Some 0 \<and>
   rollover asciiJs (startOfDay asciiJs 1700000500000) [epochItem] = [epochItem]"
  by (simp add: epochItem_def rollover_def asciiJs_def)

lemma toggleItem_stamp:
  "p_completedAt (toggleItem now id' item) = Some t \<Longrightarrow>
     t = now \<or> p_completedAt item = Some t"
  by (simp add: toggleItem_def split: if_splits)



section \<open>Category Registry: properties\<close>

lemma digitChar_not_n: "d < 10 \<Longrightarrow> digitChar d \<noteq> CHR ''n''"
proof -
  assume "d < 10"
  then have "d \<in> {0, 1, 2, 3, 4, 5, 6, 7, 8, 9}" by auto
  then show ?thesis
    by (auto simp: digitChar_def)
qed

lemma showNat_hd: "\<exists>c cs. showNat n = c # cs \<and> c \<noteq> CHR ''n''"
proof (induction n rule: showNat.induct)
  case (1 n)
  show ?case
  proof (cases "n < 10")
    case True
    then show ?thesis
      by (subst showNat.simps) (simp add: digitChar_not_n)
  next
    case False
    with "1" obtain c cs where "showNat (n div 10) = c # cs" and "c \<noteq> CHR ''n''" by blast
    with False show ?thesis
      by (subst showNat.simps) simp
  qed
qed

lemma showInt_hd: "\<exists>c cs. showInt i = c # cs \<and> c \<noteq> CHR ''n''"
  using showNat_hd [of "nat i"] showNat_hd [of "nat (- i)"]
  by (auto simp: showInt_def)

lemma dept_stamp_not_sentinel: "''dept_'' @ showInt now @ rnd \<noteq> dept_none"
proof -
  obtain c cs where "showInt now = c # cs" and "c \<noteq> CHR ''n''"
    using showInt_hd by blast
  then show ?thesis by simp
qed

lemma dept_now_not_sentinel: "''dept_'' @ showInt now \<noteq> dept_none"
  using dept_stamp_not_sentinel [of now "[]"] by simp

lemma saveCategoryUpdater_edit:
  "saveCategoryUpdater (Some ed) newCatId catName catEmoji prev =
     filter (\<lambda>c. c_id c \<noteq> dept_none \<and> c_id c \<noteq> c_id ed) prev @
     [\<lparr> c_id = c_id ed, c_name = catName, c_emoji = catEmoji \<rparr>, systemNone prev]"
  by (simp add: saveCategoryUpdater_def)

lemma saveCategoryUpdater_create:
  "saveCategoryUpdater None newCatId catName catEmoji prev =
     filter (\<lambda>c. c_id c \<noteq> dept_none) prev @
     [\<lparr> c_id = newCatId, c_name = catName, c_emoji = catEmoji \<rparr>, systemNone prev]"
  by (simp add: saveCategoryUpdater_def)

lemma c_id_systemNone: "c_id (systemNone cats) = dept_none"
proof (cases "find (\<lambda>c. c_id c = dept_none) cats")
  case None
  then show ?thesis by (simp add: systemNone_def fallbackNone_def)
next
  case (Some n)
  then have "c_id n = dept_none" by (auto simp: find_Some_iff)
  with Some show ?thesis by (simp add: systemNone_def)
qed

lemma nonSentinelIds_filter:
  "nonSentinelIds (filter (\<lambda>c. c_id c \<noteq> dept_none \<and> P (c_id c)) prev) = filter P (nonSentinelIds prev)"
proof -
  have "filter (\<lambda>c. c_id c \<noteq> dept_none) (filter (\<lambda>c. c_id c \<noteq> dept_none \<and> P (c_id c)) prev)
          = filter (\<lambda>c. P (c_id c)) (filter (\<lambda>c. c_id c \<noteq> dept_none) prev)"
    by (induction prev) simp_all
  then show ?thesis
    by (simp only: nonSentinelIds_def filter_map o_def)
qed

lemma nonSentinelIds_append: "nonSentinelIds (xs @ ys) = nonSentinelIds xs @ nonSentinelIds ys"
  by (simp add: nonSentinelIds_def)

text \<open>
  Editing the first of two categories moves it behind the second: the order of the
  non-sentinel ids changes from a, b to b, a.
\<close>

theorem edit_moves_category_counterexample:
  "nonSentinelIds cats1 = [''dept_a'', ''dept_b''] \<and>
   nonSentinelIds (saveCategoryUpdater (Some (cats1 ! 0)) ''dept_1700000500000'' ''Milk products'' ''d'' cats1)
     = [''dept_b'', ''dept_a'']"
  by (simp add: cats1_def nonSentinelIds_def saveCategoryUpdater_def systemNone_def)

text \<open>
  C9 (amended). Editing a non-sentinel category takes it out of its position and puts
  it, with its id and the new name and emoji, at the end of the non-sentinel
  categories, directly before the sentinel; the other non-sentinel categories keep
  their relative order. A newly created category is appended at the same place.
\<close>

theorem edit_reinserts_before_sentinel:
  "(c_id ed \<noteq> dept_none \<longrightarrow>
      nonSentinelIds (saveCategoryUpdater (Some ed) newCatId catName catEmoji prev)
        = filter (\<lambda>i. i \<noteq> c_id ed) (nonSentinelIds prev) @ [c_id ed] \<and>
      saveCategoryUpdater (Some ed) newCatId catName catEmoji prev
        = filter (\<lambda>c. c_id c \<noteq> dept_none \<and> c_id c \<noteq> c_id ed) prev @
          [\<lparr> c_id = c_id ed, c_name = catName, c_emoji = catEmoji \<rparr>, systemNone prev]) \<and>
   nonSentinelIds (saveCategoryUpdater None (''dept_'' @ showInt now) catName catEmoji prev)
     = nonSentinelIds prev @ [''dept_'' @ showInt now]"
proof -
  have f: "filter (\<lambda>c. c_id c \<noteq> dept_none) (filter (\<lambda>c. c_id c \<noteq> dept_none) prev)
             = filter (\<lambda>c. c_id c \<noteq> dept_none) prev"
    by simp
  have edit: "nonSentinelIds (saveCategoryUpdater (Some ed) newCatId catName catEmoji prev)
        = filter (\<lambda>i. i \<noteq> c_id ed) (nonSentinelIds prev) @ [c_id ed]"
    if "c_id ed \<noteq> dept_none"
  proof -
    have "nonSentinelIds (filter (\<lambda>c. c_id c \<noteq> dept_none \<and> c_id c \<noteq> c_id ed) prev)
            = filter (\<lambda>i. i \<noteq> c_id ed) (nonSentinelIds prev)"
      by (rule nonSentinelIds_filter [of "\<lambda>i. i \<noteq> c_id ed"])
    moreover have "nonSentinelIds [\<lparr> c_id = c_id ed, c_name = catName, c_emoji = catEmoji \<rparr>,
                                   systemNone prev] = [c_id ed]"
      using that by (simp add: nonSentinelIds_def c_id_systemNone)
    ultimately show ?thesis
      unfolding saveCategoryUpdater_edit nonSentinelIds_append by simp
  qed
  have create: "nonSentinelIds (saveCategoryUpdater None (''dept_'' @ showInt now) catName catEmoji prev)
     = nonSentinelIds prev @ [''dept_'' @ showInt now]"
    unfolding saveCategoryUpdater_create nonSentinelIds_append
    using dept_now_not_sentinel [of now]
    by (simp add: nonSentinelIds_def c_id_systemNone del: append.simps)
  from edit create show ?thesis
    by (simp add: saveCategoryUpdater_edit)
qed

theorem edit_reinserts_before_sentinel_witness:
  "c_id (cats1 ! 0) \<noteq> dept_none \<and>
   saveCategoryUpdater (Some (cats1 ! 0)) ''dept_1700000500000'' ''Milk products'' ''d'' cats1 =
     [cats1 ! 1, \<lparr> c_id = ''dept_a'', c_name = ''Milk products'', c_emoji = ''d'' \<rparr>, cats1 ! 2] \<and>
   nonSentinelIds (saveCategoryUpdater None (''dept_'' @ showInt 1705) ''Milk products'' ''d'' cats1)
     = [''dept_a'', ''dept_b'', ''dept_1705'']"
proof -
  have h: "c_id (cats1 ! 0) \<noteq> dept_none" by (simp add: cats1_def)
  have s: "systemNone cats1 = cats1 ! 2" by (simp add: systemNone_def cats1_def)
  have n: "showInt 1705 = ''1705''" by (simp add: showInt_def showNat.simps digitChar_def)
  from edit_reinserts_before_sentinel [of "cats1 ! 0" "''dept_1700000500000''" "''Milk products''" "''d''" cats1 1705]
       h s n
  show ?thesis
    by (simp add: cats1_def nonSentinelIds_def)
qed

section \<open>Set expansion: properties\<close>

lemma finalizeAddItem_not_found:
  "find (\<lambda>i. toLowerCase js (p_name i) = toLowerCase js (capName js name)) items = None \<Longrightarrow>
   finalizeAddItem js newId items name categoryId onList prev =
     \<lparr> p_id = newId, p_name = capName js name, p_categoryId = strOr categoryId dept_none,
       p_completed = False, p_onList = onList, p_purchaseCount = 0, p_completedAt = None \<rparr> # prev"
  by (simp add: finalizeAddItem_def)







lemma reorderCats_shape:
  "butlast (reorderCats cats) = filter (\<lambda>c. c_id c \<noteq> dept_none) cats \<and>
   last (reorderCats cats) = systemNone cats \<and> sentinelLast (reorderCats cats)"
  by (simp add: reorderCats_def sentinelLast_def c_id_systemNone)



lemma sets_addSpecificItemsFromSet:
  "st_sets (addSpecificItemsFromSet js draw set' itemsToAdd st) =
     map (\<lambda>s. if s_id s = s_id set'
              then s\<lparr> s_usageCount := Some (jsNumber (optNumOr (s_usageCount s) 0 + 1)) \<rparr>
              else s) (st_sets st)"
  by (simp add: addSpecificItemsFromSet_def Let_def)




text \<open>
  A counter of 9007199254740992 stays where it is: the binary64 sum with 1 rounds back.
\<close>

lemma usage_count_at_2_53:
  assumes "j < length (st_sets st)" and "s_id (st_sets st ! j) = s_id set'"
    and "s_usageCount (st_sets st ! j) = Some 9007199254740992"
  shows "s_usageCount (st_sets (addSpecificItemsFromSet js draw set' itemsToAdd st) ! j)
           = Some 9007199254740992"
  using assms
  by (simp add: sets_addSpecificItemsFromSet optNumOr_def numOr_def jsNumber_2_53_1)




section \<open>Runs: the sentinel stays last\<close>

lemma sentinelLast_append_none: "sentinelLast (xs @ [c, systemNone ys])"
  by (simp add: sentinelLast_def c_id_systemNone)

lemma sentinelLast_filter:
  assumes "sentinelLast cats" and "id' \<noteq> dept_none"
  shows "sentinelLast (filter (\<lambda>c. c_id c \<noteq> id') cats)"
proof -
  from assms(1) have ne: "cats \<noteq> []" and l: "c_id (last cats) = dept_none"
    by (simp_all add: sentinelLast_def)
  from ne have "cats = butlast cats @ [last cats]" by simp
  then have "filter (\<lambda>c. c_id c \<noteq> id') cats =
               filter (\<lambda>c. c_id c \<noteq> id') (butlast cats) @ filter (\<lambda>c. c_id c \<noteq> id') [last cats]"
    by (metis filter_append)
  also have "\<dots> = filter (\<lambda>c. c_id c \<noteq> id') (butlast cats) @ [last cats]"
    using l assms(2) by simp
  finally show ?thesis
    using l by (simp add: sentinelLast_def)
qed

lemma categories_saveCategory:
  "st_categories (saveCategory js now newId editingCategory catName catEmoji pending st) =
     (if trim js catName = [] then st_categories st
      else saveCategoryUpdater editingCategory (''dept_'' @ showInt now) catName catEmoji
             (st_categories st))"
  by (simp add: saveCategory_def Let_def)

lemma sentinelLast_saveCategoryUpdater:
  "sentinelLast (saveCategoryUpdater editingCategory newCatId catName catEmoji prev)"
  by (simp add: saveCategoryUpdater_def Let_def sentinelLast_def c_id_systemNone)

lemma sentinelLast_reorderCats: "sentinelLast (reorderCats cats)"
  by (simp add: reorderCats_shape)

lemma categories_handleAddItemFromModal:
  "st_categories (handleAddItemFromModal js now newId isAiEnabled isAiLoading addItemText
      addItemCategory forcedCategoryId onList answer st) = st_categories st \<or>
   (\<exists>newCat. st_categories (handleAddItemFromModal js now newId isAiEnabled isAiLoading addItemText
      addItemCategory forcedCategoryId onList answer st) =
        filter (\<lambda>c. c_id c \<noteq> dept_none) (st_categories st) @
        [newCat, systemNone (st_categories st)])"
  by (simp add: handleAddItemFromModal_def Let_def split: option.splits AiAnswer.splits)

lemma sentinelLast_perform:
  assumes "sentinelLast (st_categories st)"
  shows "sentinelLast (st_categories (perform js e st))"
proof (cases e)
  case (AddItemFromModal now newId isAiEnabled isAiLoading addItemText addItemCategory
          forcedCategoryId onList answer)
  then show ?thesis
    using assms categories_handleAddItemFromModal
            [of js now newId isAiEnabled isAiLoading addItemText addItemCategory
                forcedCategoryId onList answer st]
    by (auto simp: sentinelLast_append_none)
next
  case (BulkAdd ids bulkAddText bulkAddCategory viewIsBuy)
  then show ?thesis
    using assms by (simp add: handleBulkAdd_def Let_def split: option.splits)
next
  case (ExpandSet draw set' itemsToAdd)
  then show ?thesis
    by (simp add: addSpecificItemsFromSet_def Let_def sentinelLast_reorderCats)
next
  case (ExpandSelected draw set' selectedIndices)
  then show ?thesis
    using assms
    by (simp add: addSelectedFromSet_def addSpecificItemsFromSet_def Let_def sentinelLast_reorderCats)
next
  case (AcceptParsed draw parsedItems)
  then show ?thesis
    by (simp add: acceptParsedItems_def Let_def sentinelLast_reorderCats)
next
  case (ToggleComplete now logId id')
  then show ?thesis using assms by (simp add: toggleComplete_def Let_def)
next
  case (UndoButton now)
  then show ?thesis
    using assms by (simp add: undoButton_def undoCompletion_def split: option.splits)
next
  case (ToggleHistoryItem newId item)
  then show ?thesis using assms by (simp add: toggleHistoryItem_def)
next
  case (DeleteItem item)
  then show ?thesis using assms by (simp add: performItemDelete_def)
next
  case (SaveItemEdit editingItem editItemName editItemCategoryId)
  then show ?thesis using assms by (simp add: saveItemEdit_def)
next
  case (SaveCategory now newId cat catName catEmoji pending)
  then show ?thesis
    using assms
    by (simp add: categories_saveCategory sentinelLast_saveCategoryUpdater split: option.splits)
next
  case (DeleteCategory id')
  then show ?thesis
    using assms by (simp add: deleteCategory_def performDeleteCategory_def sentinelLast_filter)
qed (use assms in simp_all)

text \<open>
  A listing that contains the sentinel, but not as its last element, keeps it there
  when another category is deleted: \<open>performDeleteCategory\<close> only filters.
\<close>

theorem delete_keeps_misplaced_sentinel_counterexample:
  "c_id (st_categories state4 ! 0) = dept_none \<and>
   map c_id (st_categories (run asciiJs [DeleteCategory ''dept_a''] state4))
     = [dept_none, ''dept_b''] \<and>
   \<not> sentinelLast (st_categories (run asciiJs [DeleteCategory ''dept_a''] state4))"
  by (simp add: state4_def cats2_def deleteCategory_def performDeleteCategory_def sentinelLast_def)

text \<open>
  C2 (amended). Starting from a state whose category listing has the sentinel as its
  last element, every sequence of events (category create, edit and delete, set
  expansion, voice-parse acceptance, AI categorization, and every other handler and
  remote callback) leads to a listing whose last element is the sentinel.
\<close>

theorem sentinel_stays_last:
  "sentinelLast (st_categories st) \<Longrightarrow> sentinelLast (st_categories (run js events st))"
proof (induction events arbitrary: st)
  case Nil
  then show ?case by simp
next
  case (Cons e events)
  from Cons.prems have "sentinelLast (st_categories (perform js e st))"
    by (rule sentinelLast_perform)
  then show ?case
    using Cons.IH by simp
qed


theorem sentinel_stays_last_witness:
  "sentinelLast (st_categories state3) \<and>
   sentinelLast (st_categories (run asciiJs events1 state3)) \<and>
   map c_id (st_categories (run asciiJs events1 state3))
     = [''dept_1706'', ''dept_a'', ''dept_17050.5'', dept_none]"
proof -
  have h: "sentinelLast (st_categories state3)"
    by (simp add: state3_def cats1_def sentinelLast_def)
  have "map c_id (st_categories (run asciiJs events1 state3))
     = [''dept_1706'', ''dept_a'', ''dept_17050.5'', dept_none]"
    by (simp add: events1_def state3_def cats1_def store1_def set1_def draw1_def
          openCategoryModal_def saveCategory_def saveCategoryUpdater_def systemNone_def
          deleteCategory_def performDeleteCategory_def
          addSpecificItemsFromSet_def addSetItem_def finalizeAddItem_def capName_def
          reorderCats_def strOr_def Let_def
          asciiJs_def asciiTrim_def asciiUpper_def asciiLower_def
          showInt_def showNat.simps digitChar_def noneName_def)
  with h sentinel_stays_last [OF h, of asciiJs events1] show ?thesis by simp
qed

section \<open>Runs of local events: the completion stamp\<close>

lemma finalizeAddItem_stamped:
  assumes "list_all completionStamped prev"
  shows "list_all completionStamped (finalizeAddItem js newId items name categoryId onList prev)"
proof (cases "find (\<lambda>i. toLowerCase js (p_name i) = toLowerCase js (capName js name)) items")
  case None
  with assms show ?thesis
    by (simp add: finalizeAddItem_not_found completionStamped_def)
next
  case (Some existing)
  have "list_all completionStamped
          (map (\<lambda>i. if p_id i = p_id existing
                    then i\<lparr> p_onList := onList \<or> p_onList existing,
                            p_completed := (if onList then False else p_completed i),
                            p_completedAt := (if onList then None else p_completedAt i),
                            p_categoryId := (if categoryId \<noteq> dept_none then categoryId
                                             else p_categoryId i) \<rparr>
                    else i) prev)"
    using assms by (induction prev) (simp_all add: completionStamped_def)
  with Some show ?thesis
    by (simp only: finalizeAddItem_found)
qed

lemma finalizeAddItem_ids:
  "map p_id (finalizeAddItem js newId items name categoryId onList prev) = map p_id prev \<or>
   map p_id (finalizeAddItem js newId items name categoryId onList prev) = newId # map p_id prev"
proof (cases "find (\<lambda>i. toLowerCase js (p_name i) = toLowerCase js (capName js name)) items")
  case None
  then show ?thesis by (simp add: finalizeAddItem_not_found)
next
  case (Some existing)
  then have "map p_id (finalizeAddItem js newId items name categoryId onList prev) = map p_id prev"
    by (simp add: finalizeAddItem_found o_def cong: map_cong)
  then show ?thesis ..
qed

lemma names_step:
  assumes step: "ids1 = ids0 \<or> ids1 = f k # ids0"
    and rest: "ids2 = news @ ids1" "distinct news" "set news \<subseteq> f ` {Suc k ..< Suc k + n}"
    and inj: "inj_on f {k ..< k + Suc n}"
  shows "\<exists>news'. ids2 = news' @ ids0 \<and> distinct news' \<and> set news' \<subseteq> f ` {k ..< k + Suc n}"
proof -
  have sub: "f ` {Suc k ..< Suc k + n} \<subseteq> f ` {k ..< k + Suc n}" by auto
  from step show ?thesis
  proof
    assume "ids1 = ids0"
    with rest sub show ?thesis by auto
  next
    assume s: "ids1 = f k # ids0"
    have "f k \<notin> f ` {Suc k ..< Suc k + n}"
    proof
      assume "f k \<in> f ` {Suc k ..< Suc k + n}"
      then obtain j where j: "j \<in> {Suc k ..< Suc k + n}" and "f k = f j" by blast
      with inj have "k = j" by (auto simp: inj_on_def)
      with j show False by simp
    qed
    with rest(3) have "f k \<notin> set news" by blast
    with rest(2) have d: "distinct (news @ [f k])" by simp
    have "set (news @ [f k]) \<subseteq> f ` {k ..< k + Suc n}"
      using rest(3) sub by auto
    moreover have "ids2 = (news @ [f k]) @ ids0" using rest(1) s by simp
    ultimately show ?thesis using d by blast
  qed
qed

lemma finalizeAddItems_stamped:
  "list_all completionStamped prev \<Longrightarrow>
   list_all completionStamped (finalizeAddItems js ids items k names categoryId onList prev)"
  by (induction names arbitrary: k prev) (simp_all add: finalizeAddItem_stamped)

lemma finalizeAddItems_ids:
  assumes "inj_on ids {k ..< k + length names}"
  shows "\<exists>news. map p_id (finalizeAddItems js ids items k names categoryId onList prev)
                  = news @ map p_id prev \<and>
                distinct news \<and> set news \<subseteq> ids ` {k ..< k + length names}"
  using assms
proof (induction names arbitrary: k prev)
  case Nil
  show ?case by simp
next
  case (Cons name rest)
  let ?prev1 = "finalizeAddItem js (ids k) items name categoryId onList prev"
  have "inj_on ids {Suc k ..< Suc k + length rest}"
    using Cons.prems by (rule inj_on_subset) auto
  from Cons.IH [OF this, of ?prev1]
  obtain news where n: "map p_id (finalizeAddItems js ids items (Suc k) rest categoryId onList ?prev1)
                          = news @ map p_id ?prev1"
       "distinct news" "set news \<subseteq> ids ` {Suc k ..< Suc k + length rest}"
    by blast
  have "\<exists>news'. map p_id (finalizeAddItems js ids items (Suc k) rest categoryId onList ?prev1)
            = news' @ map p_id prev \<and> distinct news' \<and>
            set news' \<subseteq> ids ` {k ..< k + Suc (length rest)}"
    using finalizeAddItem_ids [of js "ids k" items name categoryId onList prev] n
    by (rule names_step) (use Cons.prems in simp)
  then show ?case by simp
qed

lemma addSetItem_stamped:
  "list_all completionStamped (snd acc) \<Longrightarrow>
   list_all completionStamped (snd (addSetItem js d items setItem acc))"
  by (simp add: addSetItem_def Let_def finalizeAddItem_stamped split: option.splits)

lemma addSetItem_ids:
  "map p_id (snd (addSetItem js d items setItem acc)) = map p_id (snd acc) \<or>
   map p_id (snd (addSetItem js d items setItem acc)) = d_itemId d # map p_id (snd acc)"
  by (simp add: addSetItem_def Let_def finalizeAddItem_ids split: option.splits)

lemma addSetItems_stamped:
  "list_all completionStamped (snd acc) \<Longrightarrow>
   list_all completionStamped (snd (addSetItems js draw items k rest acc))"
  by (induction rest arbitrary: k acc) (simp_all add: addSetItem_stamped)

lemma addSetItems_ids:
  assumes "inj_on (\<lambda>k. d_itemId (draw k)) {k ..< k + length rest}"
  shows "\<exists>news. map p_id (snd (addSetItems js draw items k rest acc)) = news @ map p_id (snd acc) \<and>
                distinct news \<and> set news \<subseteq> (\<lambda>k. d_itemId (draw k)) ` {k ..< k + length rest}"
  using assms
proof (induction rest arbitrary: k acc)
  case Nil
  show ?case by simp
next
  case (Cons setItem rest)
  let ?acc1 = "addSetItem js (draw k) items setItem acc"
  have "inj_on (\<lambda>k. d_itemId (draw k)) {Suc k ..< Suc k + length rest}"
    using Cons.prems by (rule inj_on_subset) auto
  from Cons.IH [OF this, of ?acc1]
  obtain news where n: "map p_id (snd (addSetItems js draw items (Suc k) rest ?acc1))
                          = news @ map p_id (snd ?acc1)"
       "distinct news" "set news \<subseteq> (\<lambda>k. d_itemId (draw k)) ` {Suc k ..< Suc k + length rest}"
    by blast
  have "\<exists>news'. map p_id (snd (addSetItems js draw items (Suc k) rest ?acc1))
            = news' @ map p_id (snd acc) \<and> distinct news' \<and>
            set news' \<subseteq> (\<lambda>k. d_itemId (draw k)) ` {k ..< k + Suc (length rest)}"
    using addSetItem_ids [of js "draw k" items setItem acc] n
    by (rule names_step) (use Cons.prems in simp)
  then show ?case by simp
qed


lemma freshIds_D:
  assumes "freshIds ids n st" and "m \<le> n"
  shows "inj_on ids {0 ..< 0 + m}" and "\<forall>x \<in> ids ` {0 ..< 0 + m}. freshId x st"
proof -
  from assms(1) have d: "distinct (map ids [0 ..< n])" and f: "\<forall>k < n. freshId (ids k) st"
    by (simp_all add: freshIds_def list_all_iff)
  from d have "inj_on ids {0 ..< n}" by (simp add: distinct_map)
  then show "inj_on ids {0 ..< 0 + m}"
    by (rule inj_on_subset) (use assms(2) in auto)
  show "\<forall>x \<in> ids ` {0 ..< 0 + m}. freshId x st"
    using f assms(2) by auto
qed

lemma storeInv_grow:
  assumes inv: "storeInv st"
    and same: "st_lastDeletedItem st' = st_lastDeletedItem st"
              "st_showUndoToast st' = st_showUndoToast st"
    and stamped: "list_all completionStamped (st_items st')"
    and ids: "map p_id (st_items st') = news @ map p_id (st_items st)" "distinct news"
    and fresh: "\<forall>x \<in> set news. freshId x st"
  shows "storeInv st'"
proof -
  from inv have old: "distinct (map p_id (st_items st))" by (simp add: storeInv_def)
  from fresh have disj: "set news \<inter> set (map p_id (st_items st)) = {}"
    by (auto simp: freshId_def)
  from old ids disj have d: "distinct (map p_id (st_items st'))" by simp
  have del: "case st_lastDeletedItem st' of
               None \<Rightarrow> True
             | Some d \<Rightarrow> completionStamped d \<and>
                         (st_showUndoToast st' \<longrightarrow> p_id d \<notin> set (map p_id (st_items st')))"
  proof (cases "st_lastDeletedItem st")
    case None
    with same show ?thesis by simp
  next
    case (Some d)
    with inv have "completionStamped d"
      and "st_showUndoToast st \<longrightarrow> p_id d \<notin> set (map p_id (st_items st))"
      by (simp_all add: storeInv_def)
    moreover have "p_id d \<notin> set news"
      using fresh Some by (auto simp: freshId_def)
    ultimately show ?thesis
      using same Some ids(1) by simp
  qed
  from stamped d del show ?thesis by (simp add: storeInv_def)
qed

lemma storeInv_map:
  assumes inv: "storeInv st"
    and same: "st_lastDeletedItem st' = st_lastDeletedItem st"
              "st_showUndoToast st' = st_showUndoToast st"
    and items: "st_items st' = map f (st_items st)"
    and f: "\<And>i. i \<in> set (st_items st) \<Longrightarrow> completionStamped i \<Longrightarrow>
                 p_id (f i) = p_id i \<and> completionStamped (f i)"
  shows "storeInv st'"
proof -
  from inv have st: "\<forall>i \<in> set (st_items st). completionStamped i"
    by (simp add: storeInv_def list_all_iff)
  with f have fi: "\<forall>i \<in> set (st_items st). p_id (f i) = p_id i \<and> completionStamped (f i)"
    by blast
  then have s: "list_all completionStamped (st_items st')"
    by (simp add: items list_all_iff)
  from fi have i: "map p_id (st_items st') = [] @ map p_id (st_items st)"
    by (simp add: items)
  show ?thesis
    by (rule storeInv_grow [OF inv same s i]) simp_all
qed

lemma storeInv_finalizeAddItem:
  assumes "storeInv st" and "freshId newId st"
    and "st_lastDeletedItem st' = st_lastDeletedItem st"
        "st_showUndoToast st' = st_showUndoToast st"
    and "st_items st' = finalizeAddItem js newId (st_items st) name categoryId onList (st_items st)"
  shows "storeInv st'"
proof -
  from assms(1) have "list_all completionStamped (st_items st)" by (simp add: storeInv_def)
  then have s: "list_all completionStamped (st_items st')"
    unfolding assms(5) by (rule finalizeAddItem_stamped)
  from finalizeAddItem_ids [of js newId "st_items st" name categoryId onList "st_items st"]
  show ?thesis
  proof
    assume "map p_id (finalizeAddItem js newId (st_items st) name categoryId onList (st_items st))
              = map p_id (st_items st)"
    then have i: "map p_id (st_items st') = [] @ map p_id (st_items st)" by (simp add: assms(5))
    show ?thesis
      by (rule storeInv_grow [OF assms(1,3,4) s i]) simp_all
  next
    assume "map p_id (finalizeAddItem js newId (st_items st) name categoryId onList (st_items st))
              = newId # map p_id (st_items st)"
    then have i: "map p_id (st_items st') = [newId] @ map p_id (st_items st)" by (simp add: assms(5))
    show ?thesis
      by (rule storeInv_grow [OF assms(1,3,4) s i]) (simp_all add: assms(2))
  qed
qed

lemma storeInv_same_items:
  assumes "storeInv st" and "st_items st' = st_items st"
    and "st_lastDeletedItem st' = st_lastDeletedItem st"
    and "st_showUndoToast st' \<longrightarrow> st_showUndoToast st"
  shows "storeInv st'"
  using assms by (auto simp: storeInv_def split: option.splits)

lemma storeInv_addSetItems:
  assumes inv: "storeInv st"
    and fresh: "freshIds (\<lambda>k. d_itemId (draw k)) n st" and len: "length tuples \<le> n"
    and same: "st_lastDeletedItem st' = st_lastDeletedItem st"
              "st_showUndoToast st' = st_showUndoToast st"
    and items: "st_items st' = snd (addSetItems js draw (st_items st) 0 tuples (cats, st_items st))"
  shows "storeInv st'"
proof -
  from inv have "list_all completionStamped (snd (cats, st_items st))"
    by (simp add: storeInv_def)
  then have s: "list_all completionStamped (st_items st')"
    unfolding items by (rule addSetItems_stamped)
  have inj: "inj_on (\<lambda>k. d_itemId (draw k)) {0 ..< 0 + length tuples}"
    and fr: "\<forall>x \<in> (\<lambda>k. d_itemId (draw k)) ` {0 ..< 0 + length tuples}. freshId x st"
    using freshIds_D [OF fresh len] by blast+
  from addSetItems_ids [OF inj, of js "st_items st" "(cats, st_items st)"]
  obtain news where n: "map p_id (st_items st') = news @ map p_id (st_items st)"
      "distinct news" "set news \<subseteq> (\<lambda>k. d_itemId (draw k)) ` {0 ..< 0 + length tuples}"
    unfolding items by auto
  from n(3) fr have "\<forall>x \<in> set news. freshId x st" by blast
  then show ?thesis
    by (rule storeInv_grow [OF inv same s n(1,2)])
qed

lemma storeInv_finalizeAddItems:
  assumes inv: "storeInv st"
    and fresh: "freshIds ids n st" and len: "length names \<le> n"
    and same: "st_lastDeletedItem st' = st_lastDeletedItem st"
              "st_showUndoToast st' = st_showUndoToast st"
    and items: "st_items st' =
                  finalizeAddItems js ids (st_items st) 0 names categoryId onList (st_items st)"
  shows "storeInv st'"
proof -
  from inv have "list_all completionStamped (st_items st)"
    by (simp add: storeInv_def)
  then have s: "list_all completionStamped (st_items st')"
    unfolding items by (rule finalizeAddItems_stamped)
  have inj: "inj_on ids {0 ..< 0 + length names}"
    and fr: "\<forall>x \<in> ids ` {0 ..< 0 + length names}. freshId x st"
    using freshIds_D [OF fresh len] by blast+
  from finalizeAddItems_ids [OF inj, of js "st_items st" categoryId onList "st_items st"]
  obtain news where n: "map p_id (st_items st') = news @ map p_id (st_items st)"
      "distinct news" "set news \<subseteq> ids ` {0 ..< 0 + length names}"
    unfolding items by auto
  from n(3) fr have "\<forall>x \<in> set news. freshId x st" by blast
  then show ?thesis
    by (rule storeInv_grow [OF inv same s n(1,2)])
qed

lemma storeInv_handleAddItemFromModal:
  assumes "storeInv st" and "freshId newId st"
  shows "storeInv (handleAddItemFromModal js now newId isAiEnabled isAiLoading addItemText
                     addItemCategory forcedCategoryId onList answer st)"
proof -
  let ?st' = "handleAddItemFromModal js now newId isAiEnabled isAiLoading addItemText
                     addItemCategory forcedCategoryId onList answer st"
  have same: "st_lastDeletedItem ?st' = st_lastDeletedItem st"
             "st_showUndoToast ?st' = st_showUndoToast st"
    by (simp_all add: handleAddItemFromModal_def Let_def split: option.splits AiAnswer.splits)
  have "st_items ?st' = st_items st \<or>
        (\<exists>c. st_items ?st' =
                finalizeAddItem js newId (st_items st) (trim js addItemText) c onList (st_items st))"
    by (auto simp: handleAddItemFromModal_def Let_def split: option.splits AiAnswer.splits)
  then show ?thesis
  proof
    assume "st_items ?st' = st_items st"
    with assms(1) same show ?thesis
      by (intro storeInv_same_items [of st ?st']) simp_all
  next
    assume "\<exists>c. st_items ?st' =
                finalizeAddItem js newId (st_items st) (trim js addItemText) c onList (st_items st)"
    then obtain c where "st_items ?st' =
                finalizeAddItem js newId (st_items st) (trim js addItemText) c onList (st_items st)"
      by blast
    with assms same show ?thesis
      by (intro storeInv_finalizeAddItem [of st newId ?st']) simp_all
  qed
qed

lemma length_filter_map_le: "length (filter P (map f xs)) \<le> length xs"
  by (metis length_filter_le length_map)

lemma storeInv_handleBulkAdd:
  assumes "storeInv st" and "freshIds ids (length (splitLines bulkAddText)) st"
  shows "storeInv (handleBulkAdd js ids bulkAddText bulkAddCategory viewIsBuy st)"
proof (cases "\<exists>category. bulkAddCategory = Some category \<and> category \<noteq> [] \<and> trim js bulkAddText \<noteq> []")
  case False
  then have "handleBulkAdd js ids bulkAddText bulkAddCategory viewIsBuy st = st"
    by (auto simp: handleBulkAdd_def split: option.splits)
  with assms(1) show ?thesis by simp
next
  case True
  then obtain category where c: "bulkAddCategory = Some category" "category \<noteq> []"
      "trim js bulkAddText \<noteq> []" by blast
  let ?lines = "filter (\<lambda>l. l \<noteq> []) (map (trim js) (splitLines bulkAddText))"
  let ?st' = "handleBulkAdd js ids bulkAddText bulkAddCategory viewIsBuy st"
  have i: "st_items ?st' = finalizeAddItems js ids (st_items st) 0 ?lines category viewIsBuy (st_items st)"
    and same: "st_lastDeletedItem ?st' = st_lastDeletedItem st"
              "st_showUndoToast ?st' = st_showUndoToast st"
    using c by (simp_all add: handleBulkAdd_def Let_def)
  have "length ?lines \<le> length (splitLines bulkAddText)"
    by (rule length_filter_map_le)
  with assms show ?thesis
    by (rule storeInv_finalizeAddItems [OF _ _ _ same i])
qed

lemma storeInv_addSpecificItemsFromSet:
  assumes "storeInv st" and "freshIds (\<lambda>k. d_itemId (draw k)) n st" and "length itemsToAdd \<le> n"
  shows "storeInv (addSpecificItemsFromSet js draw set' itemsToAdd st)"
  by (rule storeInv_addSetItems [OF assms, where cats = "st_categories st" and js = js])
     (simp_all add: addSpecificItemsFromSet_def Let_def)

lemma storeInv_addSelectedFromSet:
  assumes "storeInv st" and "freshIds (\<lambda>k. d_itemId (draw k)) (length (s_items set')) st"
  shows "storeInv (addSelectedFromSet js draw set' selectedIndices st)"
proof -
  let ?sel = "map (\<lambda>i. s_items set' ! i)
                (filter (\<lambda>i. i \<in> set selectedIndices) [0 ..< length (s_items set')])"
  have "length ?sel \<le> length (s_items set')"
    using length_filter_le [of "\<lambda>i. i \<in> set selectedIndices" "[0 ..< length (s_items set')]"]
    by simp
  with assms have "storeInv (addSpecificItemsFromSet js draw set' ?sel st)"
    by (rule storeInv_addSpecificItemsFromSet)
  with assms(1) show ?thesis
    by (simp add: addSelectedFromSet_def Let_def)
qed

lemma storeInv_acceptParsedItems:
  assumes "storeInv st" and "freshIds (\<lambda>k. d_itemId (draw k)) (length parsedItems) st"
  shows "storeInv (acceptParsedItems js draw parsedItems st)"
proof -
  let ?toAdd = "map (\<lambda>pItem. \<lparr> t_name = pi_name pItem, t_categoryName = pi_categoryName pItem,
                                t_emoji = pi_suggestedEmoji pItem \<rparr>)
                    (filter pi_selected parsedItems)"
  have "length ?toAdd \<le> length parsedItems" by simp
  with assms show ?thesis
    by (rule storeInv_addSetItems [where cats = "st_categories st" and js = js])
       (simp_all add: acceptParsedItems_def Let_def)
qed

lemma storeInv_toggleComplete:
  assumes "storeInv st"
  shows "storeInv (toggleComplete js now logId id' st)"
  by (rule storeInv_map [OF assms, where f = "toggleItem now id'"])
     (simp_all add: toggleComplete_def Let_def toggleItem_def completionStamped_def)

lemma storeInv_undoCompletion:
  assumes "storeInv st"
  shows "storeInv (undoCompletion js now st)"
proof (cases "\<exists>l. st_lastCompletedItem st = Some l \<and> l \<noteq> []")
  case False
  then have "undoCompletion js now st = st"
    by (auto simp: undoCompletion_def split: option.splits)
  with assms show ?thesis by simp
next
  case True
  then obtain l where l: "st_lastCompletedItem st = Some l" "l \<noteq> []" by blast
  show ?thesis
    by (rule storeInv_map [OF assms, where f = "\<lambda>it. if p_id it = l
                                then it\<lparr> p_completed := False, p_completedAt := None,
                                         p_purchaseCount := max 0 (jsNumber (p_purchaseCount it - 1)) \<rparr>
                                else it"])
       (simp_all add: undoCompletion_def l completionStamped_def)
qed

lemma storeInv_undoButton:
  assumes "storeInv st"
  shows "storeInv (undoButton js now st)"
proof (cases "st_showUndoToast st")
  case False
  with assms show ?thesis
    by (simp add: undoButton_def storeInv_undoCompletion)
next
  case True
  show ?thesis
  proof (cases "st_lastDeletedItem st")
    case None
    with True assms show ?thesis
      by (simp add: undoButton_def storeInv_def)
  next
    case (Some d)
    with True assms show ?thesis
      by (simp add: undoButton_def storeInv_def)
  qed
qed

lemma same_id_same_row:
  assumes "distinct (map p_id xs)" and "i \<in> set xs" and "item \<in> set xs" and "p_id i = p_id item"
  shows "i = item"
proof -
  from assms(1) have "inj_on p_id (set xs)" by (simp add: distinct_map)
  with assms(2-4) show ?thesis by (auto simp: inj_on_def)
qed

lemma storeInv_toggleHistoryItem:
  assumes inv: "storeInv st" and mem: "item \<in> set (st_items st)" and fresh: "freshId newId st"
  shows "storeInv (toggleHistoryItem js newId item st)"
proof (cases "p_onList item \<and> \<not> p_completed item")
  case True
  from inv have d: "distinct (map p_id (st_items st))" by (simp add: storeInv_def)
  show ?thesis
  proof (rule storeInv_map [OF inv, where f = "\<lambda>i. if p_id i = p_id item
                                      then i\<lparr> p_onList := False, p_completed := False \<rparr>
                                      else i"])
    fix i
    assume i: "i \<in> set (st_items st)" and s: "completionStamped i"
    show "p_id (if p_id i = p_id item then i\<lparr> p_onList := False, p_completed := False \<rparr> else i)
            = p_id i \<and>
          completionStamped (if p_id i = p_id item
                             then i\<lparr> p_onList := False, p_completed := False \<rparr> else i)"
    proof (cases "p_id i = p_id item")
      case False
      with s show ?thesis by simp
    next
      case same: True
      with d i mem have "i = item" by (rule same_id_same_row)
      with True s have "p_completedAt i = None" by (simp add: completionStamped_def)
      with same show ?thesis by (simp add: completionStamped_def)
    qed
  qed (use True in \<open>simp_all add: toggleHistoryItem_def\<close>)
next
  case False
  then have eq: "toggleHistoryItem js newId item st =
      st\<lparr> st_items := finalizeAddItem js newId (st_items st) (p_name item)
                                (p_categoryId item) True (st_items st) \<rparr>"
    by (cases "p_onList item"; cases "p_completed item"; simp add: toggleHistoryItem_def)
  show ?thesis
    by (rule storeInv_finalizeAddItem [OF inv fresh, where js = js and name = "p_name item"
                and categoryId = "p_categoryId item" and onList = True])
       (simp_all add: eq)
qed

lemma storeInv_performItemDelete:
  assumes inv: "storeInv st" and mem: "item \<in> set (st_items st)"
  shows "storeInv (performItemDelete item st)"
proof -
  from inv mem have "completionStamped item"
    by (simp add: storeInv_def list_all_iff)
  moreover from inv have "list_all completionStamped (filter (\<lambda>i. p_id i \<noteq> p_id item) (st_items st))"
    by (simp add: storeInv_def list_all_iff)
  moreover from inv have "distinct (map p_id (filter (\<lambda>i. p_id i \<noteq> p_id item) (st_items st)))"
    by (simp add: storeInv_def distinct_map_filter)
  moreover have "p_id item \<notin> set (map p_id (filter (\<lambda>i. p_id i \<noteq> p_id item) (st_items st)))"
    by auto
  ultimately show ?thesis
    by (simp add: storeInv_def performItemDelete_def)
qed

lemma storeInv_saveItemEdit:
  assumes inv: "storeInv st" and mem: "editingItem \<in> set (st_items st)"
  shows "storeInv (saveItemEdit editingItem editItemName editItemCategoryId st)"
proof -
  from inv mem have "completionStamped editingItem"
    by (simp add: storeInv_def list_all_iff)
  then show ?thesis
    by (intro storeInv_map [OF inv, where f = "\<lambda>i. if p_id i = p_id editingItem
                    then editingItem\<lparr> p_name := editItemName, p_categoryId := editItemCategoryId \<rparr>
                    else i"])
       (simp_all add: saveItemEdit_def completionStamped_def)
qed

lemma storeInv_saveCategory:
  assumes inv: "storeInv st" and fresh: "freshId newId st"
  shows "storeInv (saveCategory js now newId editingCategory catName catEmoji pending st)"
proof -
  let ?st' = "saveCategory js now newId editingCategory catName catEmoji pending st"
  let ?cid = "''dept_'' @ showInt now"
  have same: "st_lastDeletedItem ?st' = st_lastDeletedItem st"
             "st_showUndoToast ?st' = st_showUndoToast st"
    by (simp_all add: saveCategory_def Let_def)
  have keep: "storeInv ?st'" if "st_items ?st' = st_items st"
    using inv that same by (intro storeInv_same_items [of st ?st']) simp_all
  show ?thesis
  proof (cases "trim js catName = []")
    case True
    then show ?thesis by (intro keep) (simp add: saveCategory_def)
  next
    case ne: False
    show ?thesis
    proof (cases editingCategory)
      case (Some ed)
      with ne show ?thesis by (intro keep) (simp add: saveCategory_def Let_def)
    next
      case None
      show ?thesis
      proof (cases pending)
        case no: None
        with ne None show ?thesis by (intro keep) (simp add: saveCategory_def Let_def)
      next
        case (Some u)
        show ?thesis
        proof (cases "u_id u \<noteq> None \<and> u_id u \<noteq> Some []")
          case True
          with ne None Some have "st_items ?st' =
              map (\<lambda>i. if Some (p_id i) = u_id u
                       then i\<lparr> p_name := u_name u, p_categoryId := ?cid \<rparr> else i) (st_items st)"
            by (simp add: saveCategory_def Let_def)
          then show ?thesis
            by (rule storeInv_map [OF inv same]) (simp add: completionStamped_def)
        next
          case False
          with ne None Some have "st_items ?st' =
              finalizeAddItem js newId (st_items st) (u_name u) ?cid (u_onList u) (st_items st)"
            by (auto simp: saveCategory_def Let_def)
          then show ?thesis
            by (rule storeInv_finalizeAddItem [OF inv fresh same])
        qed
      qed
    qed
  qed
qed

lemma storeInv_deleteCategory:
  assumes inv: "storeInv st"
  shows "storeInv (deleteCategory id' st)"
proof (cases "id' = dept_none")
  case True
  with inv show ?thesis by (simp add: deleteCategory_def)
next
  case False
  show ?thesis
    by (rule storeInv_map [OF inv, where f = "\<lambda>item. if p_categoryId item = id'
                                  then item\<lparr> p_categoryId := dept_none \<rparr> else item"])
       (use False in \<open>simp_all add: deleteCategory_def performDeleteCategory_def completionStamped_def\<close>)
qed

lemma storeInv_rollover:
  assumes inv: "storeInv st"
  shows "storeInv (st\<lparr> st_items := rollover js todayStr (st_items st) \<rparr>)"
  by (rule storeInv_map [OF inv, where f = "\<lambda>item.
            case p_completedAt item of
              Some t \<Rightarrow>
                if p_completed item \<and> t \<noteq> 0 \<and> startOfDay js t < todayStr
                then item\<lparr> p_completed := False, p_onList := False, p_completedAt := None \<rparr>
                else item
            | None \<Rightarrow> item"])
     (simp_all add: rollover_def completionStamped_def split: option.splits)

lemma storeInv_perform:
  assumes "storeInv st" and "isLocal e" and "wellFormed js e st"
  shows "storeInv (perform js e st)"
proof (cases e)
  case (AddItemFromModal now newId isAiEnabled isAiLoading addItemText addItemCategory
          forcedCategoryId onList answer)
  with assms show ?thesis by (simp add: storeInv_handleAddItemFromModal)
next
  case (BulkAdd ids bulkAddText bulkAddCategory viewIsBuy)
  with assms show ?thesis by (simp add: storeInv_handleBulkAdd)
next
  case (ExpandSet draw set' itemsToAdd)
  with assms show ?thesis
    by (simp add: storeInv_addSpecificItemsFromSet [where n = "length itemsToAdd"])
next
  case (ExpandSelected draw set' selectedIndices)
  with assms show ?thesis by (simp add: storeInv_addSelectedFromSet)
next
  case (AcceptParsed draw parsedItems)
  with assms show ?thesis by (simp add: storeInv_acceptParsedItems)
next
  case (ToggleComplete now logId id')
  with assms show ?thesis by (simp add: storeInv_toggleComplete)
next
  case (UndoButton now)
  with assms show ?thesis by (simp add: storeInv_undoButton)
next
  case (ToggleHistoryItem newId item)
  with assms show ?thesis by (simp add: storeInv_toggleHistoryItem)
next
  case (DeleteItem item)
  with assms show ?thesis by (simp add: storeInv_performItemDelete)
next
  case (SaveItemEdit editingItem editItemName editItemCategoryId)
  with assms show ?thesis by (simp add: storeInv_saveItemEdit)
next
  case (SaveCategory now newId cat catName catEmoji pending)
  with assms show ?thesis
    by (simp add: storeInv_saveCategory split: option.splits)
next
  case (DeleteCategory id')
  with assms show ?thesis by (simp add: storeInv_deleteCategory)
next
  case (Rollover now)
  with assms show ?thesis by (simp add: storeInv_rollover)
next
  case UndoToastTimeout
  with assms show ?thesis by (simp add: storeInv_def split: option.splits)
next
  case CompletedUndoToastTimeout
  with assms show ?thesis by (simp add: storeInv_def split: option.splits)
qed (use assms in simp_all)

text \<open>
  The rows the remote load and the insert callback build take \<open>completed\<close> from
  \<open>is_bought\<close> and carry no completedAt, and the update callback overwrites
  \<open>completed\<close> and keeps completedAt: a bought row arrives completed without a
  stamp, and a stamped row that is un-bought remotely keeps its stamp.
\<close>

theorem remote_events_break_completion_stamp_counterexample:
  "st_items state4 = [] \<and>
   p_completed (st_items (perform asciiJs (RemoteLoad [ev0]) state4) ! 0) \<and>
   p_completedAt (st_items (perform asciiJs (RemoteLoad [ev0]) state4) ! 0) = None \<and>
   p_completed (st_items (perform asciiJs (RemoteInsert ev0) state4) ! 0) \<and>
   p_completedAt (st_items (perform asciiJs (RemoteInsert ev0) state4) ! 0) = None \<and>
   p_completed (st_items state2 ! 1) \<and>
   p_completedAt (st_items state2 ! 1) = Some 1700000000000 \<and>
   \<not> p_completed (st_items (perform asciiJs (RemoteUpdate evUnbought) state2) ! 1) \<and>
   p_completedAt (st_items (perform asciiJs (RemoteUpdate evUnbought) state2) ! 1)
     = Some 1700000000000"
  by (simp add: state4_def state2_def store1_def ev0_def evUnbought_def
        mappedItems_def onInsert_def onUpdate_def)

text \<open>
  The condition on the row held for the delete-undo toast cannot be dropped: after a
  remote load of a bought row, deleting that row leaves a store in which every row is
  stamped (there is none), and the undo button puts the unstamped row back.
\<close>

lemma undo_restores_unstamped_held_row:
  "st_items (run asciiJs [RemoteLoad [ev0], DeleteItem (mappedItems [ev0] ! 0)] state4) = [] \<and>
   map (\<lambda>i. (p_name i, p_completed i, p_completedAt i))
       (st_items (run asciiJs [RemoteLoad [ev0], DeleteItem (mappedItems [ev0] ! 0),
                               UndoButton 1700000600000] state4))
     = [(''Kefir'', True, None)]"
  by (simp add: state4_def ev0_def mappedItems_def performItemDelete_def undoButton_def
        strOr_def numOr_def Let_def)

text \<open>
  C5 (amended). Take a state in which (a) every row of the store has completed = true
  exactly when completedAt is set, (b) the ids of the rows are pairwise distinct, and
  (c) the row held for the delete-undo toast, if there is one, has completed = true
  exactly when completedAt is set and, while that toast is shown, an id that is not the
  id of a row of the store (\<open>storeInv\<close>). Take a sequence of events none of which is the
  remote load or a remote insert, update or delete callback (\<open>isLocal\<close>): adding from
  the dialog, bulk add, expanding a set or a selection of it, accepting parsed items,
  toggling, the undo button, the history toggle, deleting a row, saving an item edit,
  saving and deleting a category, the rollover, the two toast timers. Let every event
  be well formed in the state it is performed in (\<open>wellFormed\<close>): the row handed to the
  history toggle, to the delete and to the item edit is a row of the store as it is
  then, not an earlier snapshot; an id drawn for a new row (one for the dialog add, the
  history toggle and the category save; one for each line of a bulk add, each parsed
  item, each tuple of the expanded set) is neither the id of a row of the store nor the
  id of the held row; and the ids drawn within one bulk add or expansion are pairwise
  distinct. Then (a), (b) and (c) hold after the sequence: for every row of the store,
  completed = true implies completedAt set and completed = false implies completedAt
  unset.
\<close>

theorem local_events_keep_completion_stamp:
  assumes "storeInv st" and "admissible js events st"
  shows "storeInv (run js events st) \<and>
         (\<forall>i \<in> set (st_items (run js events st)).
            (p_completed i \<longrightarrow> p_completedAt i \<noteq> None) \<and>
            (\<not> p_completed i \<longrightarrow> p_completedAt i = None))"
proof -
  from assms have inv: "storeInv (run js events st)"
  proof (induction events arbitrary: st)
    case Nil
    then show ?case by simp
  next
    case (Cons e events)
    from Cons.prems have "storeInv (perform js e st)"
      by (simp add: storeInv_perform)
    moreover from Cons.prems have "admissible js events (perform js e st)" by simp
    ultimately show ?case
      using Cons.IH by simp
  qed
  then have "\<forall>i \<in> set (st_items (run js events st)). completionStamped i"
    by (simp add: storeInv_def list_all_iff)
  with inv show ?thesis
    by (auto simp: completionStamped_def)
qed

lemma run_events2:
  "st_items (run asciiJs events2 state2) =
     [\<lparr> p_id = ''a1'', p_name = ''Milk'', p_categoryId = ''dept_dairy'',
        p_completed = False, p_onList = False, p_purchaseCount = 3, p_completedAt = None \<rparr>,
      \<lparr> p_id = ''n9'', p_name = ''Tea'', p_categoryId = dept_none,
        p_completed = False, p_onList = True, p_purchaseCount = 0, p_completedAt = None \<rparr>,
      \<lparr> p_id = ''b7'', p_name = ''Bread'', p_categoryId = ''dept_bakery'',
        p_completed = False, p_onList = False, p_purchaseCount = 1, p_completedAt = None \<rparr>]"
  by (simp add: events2_def state2_def store1_def logs1_def
        toggleComplete_def toggleItem_def toggleLogs_def findLogEntry_def
        handleAddItemFromModal_def finalizeAddItem_def capName_def strOr_def
        performItemDelete_def undoButton_def rollover_def Let_def
        asciiJs_def asciiTrim_def asciiUpper_def asciiLower_def jsNumber_def)

lemma admissible_events2: "admissible asciiJs events2 state2"
  by (simp add: events2_def state2_def store1_def logs1_def freshId_def
        toggleComplete_def toggleItem_def toggleLogs_def findLogEntry_def
        handleAddItemFromModal_def finalizeAddItem_def capName_def strOr_def
        performItemDelete_def undoButton_def rollover_def Let_def
        asciiJs_def asciiTrim_def asciiUpper_def asciiLower_def jsNumber_def)

theorem local_events_keep_completion_stamp_witness:
  "storeInv state2 \<and> admissible asciiJs events2 state2 \<and>
   storeInv (run asciiJs events2 state2) \<and>
   map (\<lambda>i. (p_name i, p_completed i, p_completedAt i)) (st_items (run asciiJs events2 state2))
     = [(''Milk'', False, None), (''Tea'', False, None), (''Bread'', False, None)]"
proof -
  have inv: "storeInv state2"
    by (simp add: storeInv_def state2_def store1_def completionStamped_def)
  from local_events_keep_completion_stamp [OF inv admissible_events2]
  have "storeInv (run asciiJs events2 state2)" by simp
  with inv admissible_events2 show ?thesis
    by (simp add: run_events2)
qed

end
